theory Spec2Isabelle
  imports Complex_Main
begin

section \<open>Python values\<close>

text \<open>
  The resolver works on data loaded from JSON and YAML documents: \<^verbatim>\<open>None\<close>, booleans,
  integers, floats, strings, lists and dictionaries. A dictionary is an association
  list in insertion order; its keys are values as well, because a keyed table may be
  indexed by any hashable field value, \<^verbatim>\<open>None\<close> included.

  Finite floats are modelled by the real number they denote, which is exact for the
  only operations the program performs on them (comparison with other numbers when
  used as a dictionary key, and truthiness). Infinities and NaN are not represented.
  Strings are sequences of the code points below 256.
\<close>

datatype val =
    VNone
  | VBool bool
  | VInt int
  | VFloat real
  | VStr string
  | VList "val list"
  | VDict "(val \<times> val) list"

datatype py_error = AttributeError | TypeError | KeyError | ValueError

text \<open>Lists and dictionaries are unhashable: using one as a key raises \<^verbatim>\<open>TypeError\<close>.\<close>

fun hashable :: "val \<Rightarrow> bool" where
  "hashable (VList _) = False"
| "hashable (VDict _) = False"
| "hashable _ = True"

text \<open>Truthiness, as tested by \<^verbatim>\<open>if x\<close>, \<^verbatim>\<open>not x\<close> and \<^verbatim>\<open>x and y\<close>.\<close>

fun truthy :: "val \<Rightarrow> bool" where
  "truthy VNone = False"
| "truthy (VBool b) = b"
| "truthy (VInt n) = (n \<noteq> 0)"
| "truthy (VFloat r) = (r \<noteq> 0)"
| "truthy (VStr s) = (s \<noteq> [])"
| "truthy (VList xs) = (xs \<noteq> [])"
| "truthy (VDict d) = (d \<noteq> [])"

text \<open>
  Equality of hashable values, as a dictionary lookup sees it: numbers of different
  types are equal when they denote the same number (\<^verbatim>\<open>True == 1 == 1.0\<close>).
\<close>

fun py_num :: "val \<Rightarrow> real option" where
  "py_num (VBool b) = Some (if b then 1 else 0)"
| "py_num (VInt n) = Some (of_int n)"
| "py_num (VFloat r) = Some r"
| "py_num _ = None"

definition scalar_eq :: "val \<Rightarrow> val \<Rightarrow> bool" where
  "scalar_eq a b =
     (case (py_num a, py_num b) of
        (Some x, Some y) \<Rightarrow> x = y
      | (None, None) \<Rightarrow> hashable a \<and> a = b
      | _ \<Rightarrow> False)"

text \<open>\<^verbatim>\<open>d.get(k)\<close> on the items of a dictionary, with \<^verbatim>\<open>None\<close> and with an explicit default.\<close>

fun dict_lookup :: "(val \<times> 'v) list \<Rightarrow> val \<Rightarrow> 'v option" where
  "dict_lookup [] k = None"
| "dict_lookup ((k', v) # d) k = (if scalar_eq k' k then Some v else dict_lookup d k)"

definition dict_get :: "(val \<times> val) list \<Rightarrow> val \<Rightarrow> val" where
  "dict_get d k = (case dict_lookup d k of None \<Rightarrow> VNone | Some v \<Rightarrow> v)"

definition dict_get_default :: "(val \<times> val) list \<Rightarrow> val \<Rightarrow> val \<Rightarrow> val" where
  "dict_get_default d k dflt = (case dict_lookup d k of None \<Rightarrow> dflt | Some v \<Rightarrow> v)"

text \<open>
  \<^verbatim>\<open>d[k] = v\<close>: an existing key keeps its position (and the key object first inserted),
  a new key is appended.
\<close>

fun dict_set :: "(val \<times> 'v) list \<Rightarrow> val \<Rightarrow> 'v \<Rightarrow> (val \<times> 'v) list" where
  "dict_set [] k v = [(k, v)]"
| "dict_set ((k', v') # d) k v =
     (if scalar_eq k' k then (k', v) # d else (k', v') # dict_set d k v)"

text \<open>
  \<^verbatim>\<open>x.get(k)\<close> on an arbitrary value: only dictionaries have the method
  (\<^verbatim>\<open>AttributeError\<close> otherwise), and the key is hashed before the lookup
  (\<^verbatim>\<open>TypeError\<close> for a list or a dictionary, also when the dictionary is empty).
\<close>

fun val_get :: "val \<Rightarrow> val \<Rightarrow> py_error + val" where
  "val_get (VDict d) k = (if hashable k then Inr (dict_get d k) else Inl TypeError)"
| "val_get _ k = Inl AttributeError"

text \<open>Deep equality \<^verbatim>\<open>==\<close>, used by membership in a list.\<close>

fun py_eq :: "val \<Rightarrow> val \<Rightarrow> bool"
  and py_eq_list :: "val list \<Rightarrow> val list \<Rightarrow> bool"
  and py_eq_items :: "(val \<times> val) list \<Rightarrow> (val \<times> val) list \<Rightarrow> bool" where
  "py_eq (VList xs) (VList ys) = py_eq_list xs ys"
| "py_eq (VDict d) (VDict e) = (length d = length e \<and> py_eq_items d e)"
| "py_eq a b = scalar_eq a b"
| "py_eq_list [] [] = True"
| "py_eq_list (x # xs) (y # ys) = (py_eq x y \<and> py_eq_list xs ys)"
| "py_eq_list _ _ = False"
| "py_eq_items [] e = True"
| "py_eq_items ((k, v) # d) e =
     ((case dict_lookup e k of None \<Rightarrow> False | Some w \<Rightarrow> py_eq v w) \<and> py_eq_items d e)"

fun is_substr :: "string \<Rightarrow> string \<Rightarrow> bool" where
  "is_substr s [] = (s = [])"
| "is_substr s (c # cs) = (take (length s) (c # cs) = s \<or> is_substr s cs)"

text \<open>
  \<^verbatim>\<open>k in x\<close>: a hash lookup in a dictionary, a search by \<^verbatim>\<open>==\<close> in a list, a substring
  test in a string; any other right operand is not iterable.
\<close>

fun py_in :: "val \<Rightarrow> val \<Rightarrow> py_error + bool" where
  "py_in k (VDict d) = (if hashable k then Inr (dict_lookup d k \<noteq> None) else Inl TypeError)"
| "py_in k (VList xs) = Inr (list_ex (py_eq k) xs)"
| "py_in k (VStr s) = (case k of VStr t \<Rightarrow> Inr (is_substr t s) | _ \<Rightarrow> Inl TypeError)"
| "py_in k _ = Inl TypeError"

text \<open>
  Iteration (\<^verbatim>\<open>for item in x\<close>) and \<^verbatim>\<open>len(x)\<close>: a dictionary iterates over its keys, a
  string over its characters; scalars raise \<^verbatim>\<open>TypeError\<close>.
\<close>

fun py_iter :: "val \<Rightarrow> py_error + val list" where
  "py_iter (VList xs) = Inr xs"
| "py_iter (VDict d) = Inr (map fst d)"
| "py_iter (VStr s) = Inr (map (\<lambda>c. VStr [c]) s)"
| "py_iter _ = Inl TypeError"

fun py_len :: "val \<Rightarrow> py_error + nat" where
  "py_len (VList xs) = Inr (length xs)"
| "py_len (VDict d) = Inr (length d)"
| "py_len (VStr s) = Inr (length s)"
| "py_len _ = Inl TypeError"

section \<open>String operations\<close>

text \<open>\<^verbatim>\<open>str.isspace\<close> on the code points below 256.\<close>

definition py_isspace :: "char \<Rightarrow> bool" where
  "py_isspace c =
     (c \<in> {CHR 0x09, CHR 0x0A, CHR 0x0B, CHR 0x0C, CHR 0x0D, CHR 0x1C, CHR 0x1D,
            CHR 0x1E, CHR 0x1F, CHR 0x20, CHR 0x85, CHR 0xA0})"

definition py_strip :: "string \<Rightarrow> string" where
  "py_strip s = rev (dropWhile py_isspace (rev (dropWhile py_isspace s)))"

text \<open>
  \<^verbatim>\<open>s.split(d)\<close> for a string delimiter: the occurrences of \<open>d\<close> are found from
  left to right without overlap; an empty delimiter raises \<^verbatim>\<open>ValueError\<close>.
\<close>

function split_from :: "string \<Rightarrow> string \<Rightarrow> string \<Rightarrow> string list" where
  "split_from d acc [] = [rev acc]"
| "split_from d acc (c # cs) =
     (if d \<noteq> [] \<and> take (length d) (c # cs) = d
      then rev acc # split_from d [] (drop (length d) (c # cs))
      else split_from d (c # acc) cs)"
  by pat_completeness auto
termination
  by (relation "measure (\<lambda>(d, acc, s). length s)") auto

definition py_split :: "string \<Rightarrow> string \<Rightarrow> py_error + string list" where
  "py_split s d = (if d = [] then Inl ValueError else Inr (split_from d [] s))"

text \<open>
  \<^verbatim>\<open>int(s)\<close> for a string: surrounding whitespace, an optional sign, then decimal digits
  with single underscores allowed between digits. \<open>None\<close> stands for \<^verbatim>\<open>ValueError\<close>.
  (The interpreter's optional limit on the number of digits is not modelled.)
\<close>

definition digit_of :: "char \<Rightarrow> nat option" where
  "digit_of c =
     (let n = (of_char c :: nat) in if 48 \<le> n \<and> n \<le> 57 then Some (n - 48) else None)"

fun parse_digits :: "nat \<Rightarrow> string \<Rightarrow> nat option" where
  "parse_digits acc [] = Some acc"
| "parse_digits acc [c] =
     (case digit_of c of None \<Rightarrow> None | Some d \<Rightarrow> Some (10 * acc + d))"
| "parse_digits acc (c # c' # cs) =
     (if c = CHR ''_''
      then (case digit_of c' of None \<Rightarrow> None | Some d \<Rightarrow> parse_digits (10 * acc + d) cs)
      else (case digit_of c of None \<Rightarrow> None | Some d \<Rightarrow> parse_digits (10 * acc + d) (c' # cs)))"

definition parse_unsigned :: "string \<Rightarrow> int option" where
  "parse_unsigned s =
     (case s of
        [] \<Rightarrow> None
      | c # cs \<Rightarrow> (case digit_of c of None \<Rightarrow> None | Some d \<Rightarrow> map_option int (parse_digits d cs)))"

definition py_int :: "string \<Rightarrow> int option" where
  "py_int s =
     (case py_strip s of
        [] \<Rightarrow> None
      | c # cs \<Rightarrow>
          if c = CHR ''+'' then parse_unsigned cs
          else if c = CHR ''-'' then map_option uminus (parse_unsigned cs)
          else parse_unsigned (c # cs))"

section \<open>Rules\<close>

text \<open>
  A rule, a condition and a transform are dictionaries of the specification file. The
  code never looks at them as a whole, only at the presence and the value of single
  keys, so each one is a constructor with one optional argument per key it is asked
  for: \<open>None\<close> for an absent key. Names (of tables, fields and aliases) are strings,
  flags are booleans.
\<close>

datatype transform = Transform
  (t_type: "string option")
  (t_in_source: "string option")
  (t_delimiter: "string option")
  (t_as_type: "string option")

datatype rule = Rule
    (r_link_key: "rule option")
    (r_from: "string option")
    (r_field: "string option")
    (r_from_context: "string option")
    (r_from_parent: "bool option")
    (r_transform: "transform option")
    (r_condition: "condition option")
    (r_coalesce: "rule list option")
    (r_type: "string option")
    (r_fields: "(string \<times> rule) list option")
    (r_sub_object: "(string \<times> rule) list option")
  and condition = Condition
    (c_source: "string option")
    (c_key: "rule option")
    (c_exists: "bool option")

type_synonym node_structure = "(string \<times> rule) list"

text \<open>The table set \<^verbatim>\<open>all_data\<close>: a dictionary from source names to standardized tables.\<close>

type_synonym all_data = "string \<rightharpoonup> val"

definition data_get :: "all_data \<Rightarrow> string \<Rightarrow> val" where
  "data_get all_data name = (case all_data name of None \<Rightarrow> VNone | Some t \<Rightarrow> t)"

definition data_get_default :: "all_data \<Rightarrow> string \<Rightarrow> val \<Rightarrow> val" where
  "data_get_default all_data name dflt = (case all_data name of None \<Rightarrow> dflt | Some t \<Rightarrow> t)"

section \<open>Diagnostics and results\<close>

text \<open>
  The warnings and errors the code logs, in the order it logs them (messages of level
  debug and info carry no information and are left out). A computation yields the
  diagnostics it logged together with either the exception that escaped or its value.
\<close>

datatype level = Warning | Error

datatype message =
    SourceNotFound string
  | ExpectsDictionary string
  | CouldNotResolve rule
  | LookupMissingInSource
  | SplitExpectedString
  | CouldNotCast string
  | ObjectMissingFields string

type_synonym diag = "level \<times> message"

type_synonym 'a res = "diag list \<times> (py_error + 'a)"

definition ret :: "'a \<Rightarrow> 'a res" where
  "ret x = ([], Inr x)"

definition raise :: "py_error \<Rightarrow> 'a res" where
  "raise e = ([], Inl e)"

definition lift :: "py_error + 'a \<Rightarrow> 'a res" where
  "lift r = ([], r)"

definition log_then :: "diag list \<Rightarrow> 'a res \<Rightarrow> 'a res" where
  "log_then ds m = (ds @ fst m, snd m)"

definition bind :: "'a res \<Rightarrow> ('a \<Rightarrow> 'b res) \<Rightarrow> 'b res" where
  "bind m f =
     (case snd m of
        Inl e \<Rightarrow> (fst m, Inl e)
      | Inr x \<Rightarrow> log_then (fst m) (f x))"

definition warn_unless :: "bool \<Rightarrow> message \<Rightarrow> diag list" where
  "warn_unless silent msg = (if silent then [] else [(Warning, msg)])"

section \<open>Value lookup\<close>

text \<open>
  \<^verbatim>\<open>_get_value(context, rule, all_data, silent)\<close>. A rule with a \<^verbatim>\<open>link_key\<close> looks the
  key up in the named table; the other forms read the context.
\<close>

fun get_value :: "val \<Rightarrow> rule \<Rightarrow> all_data \<Rightarrow> bool \<Rightarrow> val res" where
  "get_value context (Rule (Some lk) frm fld fc fp tr cn co ty fs so) all_data silent =
     (case frm of
        None \<Rightarrow> raise KeyError
      | Some source_name \<Rightarrow>
          (let target_source = data_get all_data source_name in
           if target_source = VNone
           then (warn_unless silent (SourceNotFound source_name), Inr VNone)
           else bind (get_value context lk all_data True) (\<lambda>lookup_key.
             if lookup_key = VNone then ret VNone
             else bind (lift (val_get target_source lookup_key)) (\<lambda>linked_item.
               if linked_item = VNone then ret VNone
               else (case fld of
                       Some f \<Rightarrow>
                         (case linked_item of
                            VDict d \<Rightarrow> ret (dict_get d (VStr f))
                          | _ \<Rightarrow> (warn_unless silent (ExpectsDictionary f), Inr VNone))
                     | None \<Rightarrow> ret linked_item)))))"
| "get_value context (Rule None frm fld fc fp tr cn co ty fs so) all_data silent =
     (let unresolved =
            (warn_unless silent
               (CouldNotResolve (Rule None frm fld fc fp tr cn co ty fs so)), Inr VNone)
      in
      if (case fc of None \<Rightarrow> False | Some alias \<Rightarrow> alias \<noteq> [])
      then lift (val_get context (VStr (the fc)))
      else if fp = Some True
      then (case fld of
              None \<Rightarrow> ret context
            | Some f \<Rightarrow> lift (val_get context (VStr f)))
      else (case frm of
              None \<Rightarrow> unresolved
            | Some source_name \<Rightarrow>
                bind (lift (val_get context (VStr source_name))) (\<lambda>source_object.
                  if truthy source_object
                  then (case fld of
                          None \<Rightarrow> unresolved
                        | Some f \<Rightarrow> lift (val_get source_object (VStr f)))
                  else unresolved)))"

section \<open>Conditions\<close>

text \<open>\<^verbatim>\<open>_check_condition(context, condition_rule, all_data)\<close>.\<close>

definition check_condition :: "val \<Rightarrow> condition \<Rightarrow> all_data \<Rightarrow> bool res" where
  "check_condition context condition_rule all_data =
     (case c_source condition_rule of
        None \<Rightarrow> raise KeyError
      | Some source_name \<Rightarrow>
          (let source_to_check = data_get_default all_data source_name (VDict []) in
           case c_key condition_rule of
             None \<Rightarrow> raise KeyError
           | Some key_rule \<Rightarrow>
               bind (get_value context key_rule all_data True) (\<lambda>key_to_check.
                 if key_to_check = VNone then ret False
                 else bind (lift (py_in key_to_check source_to_check)) (\<lambda>exists.
                   ret (if c_exists condition_rule = Some True then exists else \<not> exists)))))"

section \<open>Transforms\<close>

text \<open>
  \<^verbatim>\<open>_apply_transform(value, rule, all_data)\<close>. The conversion \<^verbatim>\<open>float(s)\<close> of a string is a
  parameter \<open>py_float\<close> (\<open>None\<close> for \<^verbatim>\<open>ValueError\<close>). The split itself happens before
  the \<^verbatim>\<open>try\<close> block, so only a failed cast is caught.
\<close>

definition split_pieces :: "string list \<Rightarrow> string list" where
  "split_pieces split_values = [py_strip v. v \<leftarrow> split_values, py_strip v \<noteq> []]"

definition cast_pieces :: "(string \<Rightarrow> 'a option) \<Rightarrow> string list \<Rightarrow> 'a list option" where
  "cast_pieces cast split_values = those (map cast (split_pieces split_values))"

definition apply_transform :: "(string \<Rightarrow> real option) \<Rightarrow> val \<Rightarrow> rule \<Rightarrow> all_data \<Rightarrow> val res" where
  "apply_transform py_float value rule all_data =
     (case r_transform rule of
        None \<Rightarrow> ret value
      | Some transform_rule \<Rightarrow>
          if value = VNone then ret value
          else if t_type transform_rule = Some ''lookup''
          then (case t_in_source transform_rule of
                  None \<Rightarrow> ([(Warning, LookupMissingInSource)], Inr value)
                | Some lookup_source_name \<Rightarrow>
                    if lookup_source_name = []
                    then ([(Warning, LookupMissingInSource)], Inr value)
                    else lift (val_get
                           (data_get_default all_data lookup_source_name (VDict [])) value))
          else if t_type transform_rule = Some ''split''
          then (let delimiter = (case t_delimiter transform_rule of None \<Rightarrow> '','' | Some d \<Rightarrow> d);
                    as_type = (case t_as_type transform_rule of None \<Rightarrow> ''string'' | Some t \<Rightarrow> t)
                in
                case value of
                  VStr s \<Rightarrow>
                    bind (lift (py_split s delimiter)) (\<lambda>split_values.
                      if as_type = ''int''
                      then (case cast_pieces py_int split_values of
                              Some ns \<Rightarrow> ret (VList (map VInt ns))
                            | None \<Rightarrow> ([(Warning, CouldNotCast as_type)],
                                        Inr (VList (map VStr (split_pieces split_values)))))
                      else if as_type = ''float''
                      then (case cast_pieces py_float split_values of
                              Some xs \<Rightarrow> ret (VList (map VFloat xs))
                            | None \<Rightarrow> ([(Warning, CouldNotCast as_type)],
                                        Inr (VList (map VStr (split_pieces split_values)))))
                      else ret (VList (map VStr (split_pieces split_values))))
                | _ \<Rightarrow> ([(Warning, SplitExpectedString)], Inr value))
          else ret value)"

text \<open>\<^verbatim>\<open>_resolve_simple_value(context, rule, all_data)\<close>.\<close>

definition resolve_simple_value :: "(string \<Rightarrow> real option) \<Rightarrow> val \<Rightarrow> rule \<Rightarrow> all_data \<Rightarrow> val res" where
  "resolve_simple_value py_float context rule all_data =
     bind (get_value context rule all_data False) (\<lambda>raw_value.
       apply_transform py_float raw_value rule all_data)"

section \<open>The tree builder\<close>

text \<open>A loop that appends one result per element and stops at the first exception.\<close>

fun map_res :: "('a \<Rightarrow> 'b res) \<Rightarrow> 'a list \<Rightarrow> 'b list res" where
  "map_res f [] = ret []"
| "map_res f (x # xs) = bind (f x) (\<lambda>y. bind (map_res f xs) (\<lambda>ys. ret (y # ys)))"

text \<open>The loop over the sub-rules of a \<^verbatim>\<open>coalesce\<close>, left at the first value that is not \<^verbatim>\<open>None\<close>.\<close>

fun coalesce_loop :: "(string \<Rightarrow> real option) \<Rightarrow> val \<Rightarrow> rule list \<Rightarrow> all_data \<Rightarrow> val res" where
  "coalesce_loop py_float context [] all_data = ret VNone"
| "coalesce_loop py_float context (sub_rule # rest) all_data =
     bind (resolve_simple_value py_float context sub_rule all_data) (\<lambda>value.
       if value \<noteq> VNone then ret value
       else coalesce_loop py_float context rest all_data)"

text \<open>
  The list a \<^verbatim>\<open>list\<close> rule works on, computed from the linked item. Its length is
  formatted into a log message whatever the log level, so a value without a length
  raises \<^verbatim>\<open>TypeError\<close> here.
\<close>

definition linked_list_of :: "string option \<Rightarrow> val \<Rightarrow> val res" where
  "linked_list_of fld linked_item =
     (let linked_list =
        (case (fld, linked_item) of
           (Some f, VDict d) \<Rightarrow> dict_get_default d (VStr f) (VList [])
         | (_, VList xs) \<Rightarrow> VList xs
         | _ \<Rightarrow> VList [])
      in bind (lift (py_len linked_list)) (\<lambda>n. ret linked_list))"

text \<open>
  \<^verbatim>\<open>_build_node(context, structure, all_data)\<close>: \<open>build_fields\<close> is the loop over the
  declared fields with the output record built so far, \<open>build_field\<close> the body of the
  loop after the condition, yielding the value stored under the field's key.
\<close>

fun build_fields ::
    "(string \<Rightarrow> real option) \<Rightarrow> val \<Rightarrow> node_structure \<Rightarrow> all_data \<Rightarrow> (val \<times> val) list \<Rightarrow> val res"
  and build_field ::
    "(string \<Rightarrow> real option) \<Rightarrow> val \<Rightarrow> string \<Rightarrow> rule \<Rightarrow> all_data \<Rightarrow> val res" where
  "build_fields py_float context [] all_data output_node = ret (VDict output_node)"
| "build_fields py_float context ((key, rule) # rest) all_data output_node =
     bind (case r_condition rule of
             None \<Rightarrow> ret True
           | Some c \<Rightarrow> check_condition context c all_data) (\<lambda>included.
       if \<not> included then build_fields py_float context rest all_data output_node
       else bind (build_field py_float context key rule all_data) (\<lambda>v.
              build_fields py_float context rest all_data (dict_set output_node (VStr key) v)))"
| "build_field py_float context key (Rule lk frm fld fc fp tr cn co ty fs so) all_data =
     (case co of
        Some sub_rules \<Rightarrow> coalesce_loop py_float context sub_rules all_data
      | None \<Rightarrow>
          if ty = Some ''object''
          then (case fs of
                  None \<Rightarrow> ([(Error, ObjectMissingFields key)], Inr VNone)
                | Some fields \<Rightarrow> build_fields py_float context fields all_data [])
          else if ty = Some ''list''
          then (case lk of
                  None \<Rightarrow> raise KeyError
                | Some key_rule \<Rightarrow>
                    bind (get_value context key_rule all_data False) (\<lambda>lookup_key.
                      case frm of
                        None \<Rightarrow> raise KeyError
                      | Some source_name \<Rightarrow>
                          bind (lift (val_get
                                  (data_get_default all_data source_name (VDict [])) lookup_key))
                            (\<lambda>linked_item.
                               bind (linked_list_of fld linked_item) (\<lambda>linked_list.
                                 case so of
                                   None \<Rightarrow> ret linked_list
                                 | Some sub_object \<Rightarrow>
                                     bind (lift (py_iter linked_list)) (\<lambda>items.
                                       bind (map_res
                                               (\<lambda>item. build_fields py_float item sub_object all_data [])
                                               items)
                                         (\<lambda>list_items. ret (VList list_items)))))))
          else resolve_simple_value py_float context
                 (Rule lk frm fld fc fp tr cn co ty fs so) all_data)"

definition build_node :: "(string \<Rightarrow> real option) \<Rightarrow> val \<Rightarrow> node_structure \<Rightarrow> all_data \<Rightarrow> val res" where
  "build_node py_float context structure all_data =
     build_fields py_float context structure all_data []"

section \<open>The driver\<close>

text \<open>
  The keys of the specification that \<^verbatim>\<open>resolve_data\<close> reads. The items are given in
  the order of iteration.
\<close>

record resolution_spec =
  sp_output_structure :: "node_structure option"
  sp_resolution_strategy :: "string option"
  sp_primary_source :: "string option"

definition root_context :: "resolution_spec \<Rightarrow> val \<Rightarrow> val res" where
  "root_context spec item =
     (if sp_resolution_strategy spec = Some ''union''
      then ret (VDict [(VStr ''union_id'', item)])
      else (case sp_primary_source spec of
              None \<Rightarrow> raise KeyError
            | Some primary_source \<Rightarrow> ret (VDict [(VStr primary_source, item)])))"

definition resolve_data ::
    "(string \<Rightarrow> real option) \<Rightarrow> resolution_spec \<Rightarrow> all_data \<Rightarrow> val list \<Rightarrow> val list res" where
  "resolve_data py_float spec all_data items_to_process =
     (case sp_output_structure spec of
        None \<Rightarrow> raise KeyError
      | Some output_structure \<Rightarrow>
          map_res (\<lambda>item. bind (root_context spec item) (\<lambda>context.
                     build_node py_float context output_structure all_data))
            items_to_process)"

section \<open>Standardization\<close>

text \<open>
  \<^verbatim>\<open>create_lookup_map(data, key_field)\<close>: the dictionary comprehension assigns the items in
  order, so a later item replaces an earlier one under an equal key.
\<close>

fun lookup_map_loop :: "val list \<Rightarrow> string \<Rightarrow> (val \<times> val) list \<Rightarrow> py_error + (val \<times> val) list" where
  "lookup_map_loop [] key_field acc = Inr acc"
| "lookup_map_loop (item # items) key_field acc =
     (case val_get item (VStr key_field) of
        Inl e \<Rightarrow> Inl e
      | Inr k \<Rightarrow>
          if hashable k then lookup_map_loop items key_field (dict_set acc k item)
          else Inl TypeError)"

definition create_lookup_map :: "val \<Rightarrow> string \<Rightarrow> py_error + val" where
  "create_lookup_map data key_field =
     (case py_iter data of
        Inl e \<Rightarrow> Inl e
      | Inr items \<Rightarrow>
          (case lookup_map_loop items key_field [] of
             Inl e \<Rightarrow> Inl e
           | Inr d \<Rightarrow> Inr (VDict d)))"

text \<open>\<^verbatim>\<open>create_grouping_map(data, key_field)\<close>: items whose key is \<^verbatim>\<open>None\<close> are skipped.\<close>

fun grouping_map_loop ::
    "val list \<Rightarrow> string \<Rightarrow> (val \<times> val list) list \<Rightarrow> py_error + (val \<times> val list) list" where
  "grouping_map_loop [] key_field grouped_data = Inr grouped_data"
| "grouping_map_loop (item # items) key_field grouped_data =
     (case val_get item (VStr key_field) of
        Inl e \<Rightarrow> Inl e
      | Inr k \<Rightarrow>
          if k = VNone then grouping_map_loop items key_field grouped_data
          else if hashable k
          then grouping_map_loop items key_field
                 (dict_set grouped_data k
                    ((case dict_lookup grouped_data k of None \<Rightarrow> [] | Some xs \<Rightarrow> xs) @ [item]))
          else Inl TypeError)"

definition create_grouping_map :: "val \<Rightarrow> string \<Rightarrow> py_error + val" where
  "create_grouping_map data key_field =
     (case py_iter data of
        Inl e \<Rightarrow> Inl e
      | Inr items \<Rightarrow>
          (case grouping_map_loop items key_field [] of
             Inl e \<Rightarrow> Inl e
           | Inr g \<Rightarrow> Inr (VDict (map (\<lambda>(k, xs). (k, VList xs)) g))))"

text \<open>
  \<^verbatim>\<open>standardize_source(source_data, source_spec)\<close>. The name of the source is formatted
  into the progress message, so a specification without it raises \<^verbatim>\<open>KeyError\<close>.
\<close>

record source_spec =
  ss_name :: "string option"
  ss_strategy :: "string option"
  ss_key :: "string option"

definition standardize_source :: "val \<Rightarrow> source_spec \<Rightarrow> py_error + val" where
  "standardize_source source_data source_spec =
     (let strategy = (case ss_strategy source_spec of None \<Rightarrow> ''lookup'' | Some s \<Rightarrow> s);
          key = ss_key source_spec
      in
      if ss_name source_spec = None then Inl KeyError
      else if strategy = ''group_by''
      then (case key of
              None \<Rightarrow> Inl ValueError
            | Some k \<Rightarrow> if k = [] then Inl ValueError else create_grouping_map source_data k)
      else (case key of
              None \<Rightarrow> Inr source_data
            | Some k \<Rightarrow> if k = [] then Inr source_data else create_lookup_map source_data k))"

section \<open>Notions used to state the properties\<close>

text \<open>
  A record that \<^verbatim>\<open>item.get(key_field)\<close> accepts and whose key can index a dictionary, the
  key of such a record (\<^verbatim>\<open>None\<close> when the field is missing), the last record of a list
  under a given key, all the records of a list under a given key other than \<^verbatim>\<open>None\<close>, and
  dictionaries without two equal keys.
\<close>

fun is_keyed_record :: "string \<Rightarrow> val \<Rightarrow> bool" where
  "is_keyed_record key_field (VDict d) = hashable (dict_get d (VStr key_field))"
| "is_keyed_record key_field _ = False"

fun record_key :: "string \<Rightarrow> val \<Rightarrow> val" where
  "record_key key_field (VDict d) = dict_get d (VStr key_field)"
| "record_key key_field _ = VNone"

fun last_record_with :: "string \<Rightarrow> val \<Rightarrow> val list \<Rightarrow> val option" where
  "last_record_with key_field q [] = None"
| "last_record_with key_field q (item # items) =
     (case last_record_with key_field q items of
        Some later \<Rightarrow> Some later
      | None \<Rightarrow> if scalar_eq (record_key key_field item) q then Some item else None)"

fun distinct_keys :: "(val \<times> 'v) list \<Rightarrow> bool" where
  "distinct_keys [] = True"
| "distinct_keys ((k, v) # d) = (dict_lookup d k = None \<and> distinct_keys d)"

definition records_with :: "string \<Rightarrow> val \<Rightarrow> val list \<Rightarrow> val list" where
  "records_with key_field q items =
     filter (\<lambda>item. record_key key_field item \<noteq> VNone \<and> scalar_eq (record_key key_field item) q) items"

text \<open>
  The forms of rule of the specification's data model, as values of \<open>rule\<close>: a direct
  read, a read through the parent context, a linked lookup, a fallback chain, a
  nested object and a list.
\<close>

definition direct_rule :: "string \<Rightarrow> string \<Rightarrow> rule" where
  "direct_rule alias f =
     Rule None (Some alias) (Some f) None None None None None None None None"

definition parent_rule :: "string option \<Rightarrow> rule" where
  "parent_rule fld = Rule None None fld None (Some True) None None None None None None"

definition linked_rule :: "rule \<Rightarrow> string \<Rightarrow> string option \<Rightarrow> rule" where
  "linked_rule key_rule table fld =
     Rule (Some key_rule) (Some table) fld None None None None None None None None"

definition coalesce_rule :: "rule list \<Rightarrow> rule" where
  "coalesce_rule sub_rules =
     Rule None None None None None None None (Some sub_rules) None None None"

definition object_rule :: "node_structure option \<Rightarrow> rule" where
  "object_rule fs = Rule None None None None None None None None (Some ''object'') fs None"

definition list_rule :: "rule \<Rightarrow> string \<Rightarrow> string option \<Rightarrow> node_structure option \<Rightarrow> rule" where
  "list_rule key_rule table fld sub =
     Rule (Some key_rule) (Some table) fld None None None None None (Some ''list'') None sub"








text \<open>
  Two table sets that differ in one name only: the table is absent from the first and
  present but empty in the second.
\<close>

definition absent_for :: "string \<Rightarrow> all_data \<Rightarrow> all_data \<Rightarrow> bool" where
  "absent_for name aa ae \<longleftrightarrow>
     ae name = Some (VDict []) \<and> aa name = None \<and> (\<forall>n. n \<noteq> name \<longrightarrow> aa n = ae n)"

section \<open>Dictionaries\<close>

lemma scalar_eq_sym: "scalar_eq a b = scalar_eq b a"
  by (auto simp: scalar_eq_def split: option.splits)

lemma scalar_eq_trans: "scalar_eq a b \<Longrightarrow> scalar_eq b c \<Longrightarrow> scalar_eq a c"
  by (auto simp: scalar_eq_def split: option.splits)

lemma scalar_eq_left: "scalar_eq a b \<Longrightarrow> scalar_eq a c = scalar_eq b c"
  using scalar_eq_sym scalar_eq_trans by blast

lemma scalar_eq_refl: "hashable a \<Longrightarrow> scalar_eq a a"
  by (cases a) (auto simp: scalar_eq_def)

lemma scalar_eq_None: "scalar_eq a VNone = (a = VNone)" "scalar_eq VNone a = (a = VNone)"
  by (cases a; auto simp: scalar_eq_def)+

lemma dict_lookup_dict_set:
  "dict_lookup (dict_set d k v) q = (if scalar_eq k q then Some v else dict_lookup d q)"
proof (induction d)
  case Nil
  then show ?case by simp
next
  case (Cons p d)
  obtain k' v' where p: "p = (k', v')" by (cases p)
  show ?case
  proof (cases "scalar_eq k' k")
    case True
    then have "scalar_eq k' q = scalar_eq k q" by (rule scalar_eq_left)
    with True p show ?thesis by simp
  next
    case False
    have "scalar_eq k' q \<Longrightarrow> \<not> scalar_eq k q"
      using False scalar_eq_sym scalar_eq_trans by blast
    with False p Cons.IH show ?thesis by auto
  qed
qed

lemma val_get_keyed: "is_keyed_record kf item \<Longrightarrow> val_get item (VStr kf) = Inr (record_key kf item)"
  by (cases item) auto

lemma keyed_hashable: "is_keyed_record kf item \<Longrightarrow> hashable (record_key kf item)"
  by (cases item) auto

lemma scalar_eq_right: "scalar_eq a b \<Longrightarrow> scalar_eq c a = scalar_eq c b"
  using scalar_eq_sym scalar_eq_trans by blast

lemma dict_lookup_eq_key: "scalar_eq a b \<Longrightarrow> dict_lookup d a = dict_lookup d b"
  by (induction d) (auto simp: scalar_eq_right)

lemma distinct_keys_dict_set: "hashable k \<Longrightarrow> distinct_keys d \<Longrightarrow> distinct_keys (dict_set d k v)"
proof (induction d)
  case Nil
  then show ?case by simp
next
  case (Cons p d)
  obtain k' v' where p: "p = (k', v')" by (cases p)
  with Cons show ?case
    by (auto simp: dict_lookup_dict_set scalar_eq_sym)
qed

lemma lookup_map_loop_keyed:
  "list_all (is_keyed_record kf) items \<Longrightarrow>
   \<exists>d. lookup_map_loop items kf acc = Inr d \<and>
       (distinct_keys acc \<longrightarrow> distinct_keys d) \<and>
       (\<forall>q. dict_lookup d q =
          (case last_record_with kf q items of
             Some it \<Rightarrow> Some it | None \<Rightarrow> dict_lookup acc q))"
proof (induction items arbitrary: acc)
  case Nil
  then show ?case by simp
next
  case (Cons item items)
  from Cons.prems have k: "is_keyed_record kf item" and rest: "list_all (is_keyed_record kf) items"
    by simp_all
  let ?acc = "dict_set acc (record_key kf item) item"
  from Cons.IH [OF rest, of ?acc]
  obtain d where d: "lookup_map_loop items kf ?acc = Inr d"
    and dk: "distinct_keys ?acc \<longrightarrow> distinct_keys d"
    and l: "\<And>q. dict_lookup d q =
          (case last_record_with kf q items of
             Some it \<Rightarrow> Some it | None \<Rightarrow> dict_lookup ?acc q)"
    by blast
  have "lookup_map_loop (item # items) kf acc = Inr d"
    using d k by (simp add: val_get_keyed keyed_hashable)
  moreover have "dict_lookup d q =
          (case last_record_with kf q (item # items) of
             Some it \<Rightarrow> Some it | None \<Rightarrow> dict_lookup acc q)" for q
    by (simp add: l dict_lookup_dict_set split: option.splits)
  moreover have "distinct_keys acc \<longrightarrow> distinct_keys d"
    using dk k by (simp add: distinct_keys_dict_set keyed_hashable)
  ultimately show ?case by blast
qed

lemma grouping_map_loop_keyed:
  "list_all (is_keyed_record kf) items \<Longrightarrow>
   \<exists>g. grouping_map_loop items kf acc = Inr g \<and>
       (distinct_keys acc \<longrightarrow> distinct_keys g) \<and>
       (\<forall>q. dict_lookup g q =
          (let old = (case dict_lookup acc q of None \<Rightarrow> [] | Some xs \<Rightarrow> xs);
               new = filter (\<lambda>it. record_key kf it \<noteq> VNone \<and> scalar_eq (record_key kf it) q) items
           in if new = [] then dict_lookup acc q else Some (old @ new)))"
proof (induction items arbitrary: acc)
  case Nil
  then show ?case by simp
next
  case (Cons item items)
  from Cons.prems have k: "is_keyed_record kf item" and rest: "list_all (is_keyed_record kf) items"
    by simp_all
  show ?case
  proof (cases "record_key kf item = VNone")
    case True
    with Cons.IH [OF rest, of acc] k show ?thesis
      by (simp add: val_get_keyed)
  next
    case False
    let ?k = "record_key kf item"
    let ?acc = "dict_set acc ?k ((case dict_lookup acc ?k of None \<Rightarrow> [] | Some xs \<Rightarrow> xs) @ [item])"
    from Cons.IH [OF rest, of ?acc]
    obtain g where g: "grouping_map_loop items kf ?acc = Inr g"
      and dk: "distinct_keys ?acc \<longrightarrow> distinct_keys g"
      and l: "\<And>q. dict_lookup g q =
          (let old = (case dict_lookup ?acc q of None \<Rightarrow> [] | Some xs \<Rightarrow> xs);
               new = filter (\<lambda>it. record_key kf it \<noteq> VNone \<and> scalar_eq (record_key kf it) q) items
           in if new = [] then dict_lookup ?acc q else Some (old @ new))"
      by blast
    have "grouping_map_loop (item # items) kf acc = Inr g"
      using g k False by (simp add: val_get_keyed keyed_hashable)
    moreover have "distinct_keys acc \<longrightarrow> distinct_keys g"
      using dk k by (simp add: distinct_keys_dict_set keyed_hashable)
    moreover have "dict_lookup g q =
          (let old = (case dict_lookup acc q of None \<Rightarrow> [] | Some xs \<Rightarrow> xs);
               new = filter (\<lambda>it. record_key kf it \<noteq> VNone \<and> scalar_eq (record_key kf it) q) (item # items)
           in if new = [] then dict_lookup acc q else Some (old @ new))" for q
    proof (cases "scalar_eq ?k q")
      case True
      then have "dict_lookup acc ?k = dict_lookup acc q"
        by (rule dict_lookup_eq_key)
      with True False show ?thesis
        by (simp add: l dict_lookup_dict_set Let_def)
    next
      case F: False
      then show ?thesis
        by (simp add: l dict_lookup_dict_set Let_def)
    qed
    ultimately show ?thesis by blast
  qed
qed

lemma dict_lookup_map_VList:
  "dict_lookup (map (\<lambda>(k, xs). (k, VList xs)) g) q = map_option VList (dict_lookup g q)"
  by (induction g) auto

lemma distinct_keys_map_VList:
  "distinct_keys (map (\<lambda>(k, xs). (k, VList xs)) g) = distinct_keys g"
  by (induction g) (auto simp: dict_lookup_map_VList)

lemma create_lookup_map_keyed:
  assumes "list_all (is_keyed_record kf) items"
  shows "\<exists>table. create_lookup_map (VList items) kf = Inr (VDict table) \<and> distinct_keys table \<and>
           (\<forall>q. dict_lookup table q = last_record_with kf q items)"
proof -
  from lookup_map_loop_keyed [OF assms, of "[]"]
  obtain d where "lookup_map_loop items kf [] = Inr d" and "distinct_keys d"
    and "\<And>q. dict_lookup d q = last_record_with kf q items"
    by (auto split: option.splits) (metis not_Some_eq)
  then show ?thesis by (simp add: create_lookup_map_def)
qed

lemma create_grouping_map_keyed:
  assumes "list_all (is_keyed_record kf) items"
  shows "\<exists>g. create_grouping_map (VList items) kf = Inr (VDict g) \<and> distinct_keys g \<and>
           (\<forall>q. dict_lookup g q =
              (if records_with kf q items = [] then None else Some (VList (records_with kf q items))))"
proof -
  from grouping_map_loop_keyed [OF assms, of "[]"]
  obtain g where "grouping_map_loop items kf [] = Inr g" and "distinct_keys g"
    and "\<And>q. dict_lookup g q =
           (if records_with kf q items = [] then None else Some (records_with kf q items))"
    by (auto simp: records_with_def Let_def)
  then show ?thesis
    by (simp add: create_grouping_map_def dict_lookup_map_VList distinct_keys_map_VList)
qed

lemma last_record_with_mem:
  "item \<in> set items \<Longrightarrow> scalar_eq (record_key kf item) q \<Longrightarrow> last_record_with kf q items \<noteq> None"
  by (induction items) (auto split: option.splits)

text \<open>
  The maps are built without exception exactly for the lists of records that can be
  indexed by the key field.
\<close>

lemma is_keyed_record_iff:
  "is_keyed_record kf item \<longleftrightarrow> (\<exists>k. val_get item (VStr kf) = Inr k \<and> hashable k)"
  by (cases item) auto

lemma lookup_map_loop_returns:
  "lookup_map_loop items kf acc = Inr d \<Longrightarrow> list_all (is_keyed_record kf) items"
  by (induction items arbitrary: acc)
     (auto simp: is_keyed_record_iff split: sum.splits if_splits)

lemma grouping_map_loop_returns:
  "grouping_map_loop items kf acc = Inr g \<Longrightarrow> list_all (is_keyed_record kf) items"
  by (induction items arbitrary: acc)
     (auto simp: is_keyed_record_iff split: sum.splits if_splits)

lemma create_lookup_map_returns_iff:
  "(\<exists>table. create_lookup_map (VList items) kf = Inr table) \<longleftrightarrow>
   list_all (is_keyed_record kf) items"
  using create_lookup_map_keyed [of kf items] lookup_map_loop_returns [of items kf "[]"]
  by (auto simp: create_lookup_map_def split: sum.splits)

lemma create_grouping_map_returns_iff:
  "(\<exists>table. create_grouping_map (VList items) kf = Inr table) \<longleftrightarrow>
   list_all (is_keyed_record kf) items"
  using create_grouping_map_keyed [of kf items] grouping_map_loop_returns [of items kf "[]"]
  by (auto simp: create_grouping_map_def split: sum.splits)

section \<open>Results and iteration\<close>

lemma bind_Inr [simp]: "bind (l, Inr x) f = log_then l (f x)"
  by (simp add: bind_def)

lemma bind_Inl [simp]: "bind (l, Inl e) f = (l, Inl e)"
  by (simp add: bind_def)

lemma bind_ret [simp]: "bind (ret x) f = f x"
  by (simp add: bind_def ret_def log_then_def)

lemma bind_lift_Inr [simp]: "bind (lift (Inr x)) f = f x"
  by (simp add: bind_def lift_def log_then_def)

lemma bind_lift_Inl [simp]: "bind (lift (Inl e)) f = ([], Inl e)"
  by (simp add: bind_def lift_def)

lemma bind_raise [simp]: "bind (raise e) f = ([], Inl e)"
  by (simp add: bind_def raise_def)

lemma log_then_Nil [simp]: "log_then [] m = m"
  by (simp add: log_then_def)

lemma snd_log_then [simp]: "snd (log_then l m) = snd m"
  by (simp add: log_then_def)

lemma fst_log_then [simp]: "fst (log_then l m) = l @ fst m"
  by (simp add: log_then_def)

lemma snd_ret [simp]: "snd (ret x) = Inr x" and fst_ret [simp]: "fst (ret x) = []"
  by (simp_all add: ret_def)

lemma snd_raise [simp]: "snd (raise e) = Inl e"
  by (simp add: raise_def)

lemma snd_lift [simp]: "snd (lift r) = r"
  by (simp add: lift_def)

lemma snd_bind: "snd (bind m f) = (case snd m of Inl e \<Rightarrow> Inl e | Inr x \<Rightarrow> snd (f x))"
  by (simp add: bind_def split: sum.splits)

lemma bind_eq: "m = (l, Inr x) \<Longrightarrow> bind m f = log_then l (f x)"
  by simp

lemma coalesce_loop_winner:
  assumes "\<forall>r\<in>set before. snd (resolve_simple_value pf ctx r ad) = Inr VNone"
    and "snd (resolve_simple_value pf ctx winner ad) = Inr v" and "v \<noteq> VNone"
  shows "coalesce_loop pf ctx (before @ winner # after) ad =
           (concat (map (\<lambda>r. fst (resolve_simple_value pf ctx r ad)) (before @ [winner])), Inr v)"
  using assms(1)
proof (induction before)
  case Nil
  obtain l where "resolve_simple_value pf ctx winner ad = (l, Inr v)"
    using assms(2) by (cases "resolve_simple_value pf ctx winner ad") simp
  with assms(3) show ?case by (simp add: log_then_def ret_def)
next
  case (Cons r before)
  obtain l where "resolve_simple_value pf ctx r ad = (l, Inr VNone)"
    using Cons.prems by (cases "resolve_simple_value pf ctx r ad") simp
  with Cons show ?case by (simp add: log_then_def)
qed

lemma coalesce_loop_all_null:
  assumes "\<forall>r\<in>set rs. snd (resolve_simple_value pf ctx r ad) = Inr VNone"
  shows "coalesce_loop pf ctx rs ad =
           (concat (map (\<lambda>r. fst (resolve_simple_value pf ctx r ad)) rs), Inr VNone)"
  using assms
proof (induction rs)
  case Nil
  show ?case by (simp add: ret_def)
next
  case (Cons r rs)
  obtain l where "resolve_simple_value pf ctx r ad = (l, Inr VNone)"
    using Cons.prems by (cases "resolve_simple_value pf ctx r ad") simp
  with Cons show ?case by (simp add: log_then_def)
qed

lemma build_field_coalesce:
  "r_coalesce rule = Some rs \<Longrightarrow> build_field pf ctx key rule ad = coalesce_loop pf ctx rs ad"
  by (cases rule) simp

lemma build_fields_included:
  assumes "(case r_condition rule of None \<Rightarrow> ret True | Some c \<Rightarrow> check_condition ctx c ad) = (lc, Inr True)"
    and "build_field pf ctx key rule ad = (lf, Inr v)"
  shows "build_fields pf ctx ((key, rule) # rest) ad out =
           log_then (lc @ lf) (build_fields pf ctx rest ad (dict_set out (VStr key) v))"
  using assms by (simp add: log_then_def)

lemma build_fields_omitted:
  assumes "(case r_condition rule of None \<Rightarrow> ret True | Some c \<Rightarrow> check_condition ctx c ad) = (lc, Inr False)"
  shows "build_fields pf ctx ((key, rule) # rest) ad out =
           log_then lc (build_fields pf ctx rest ad out)"
  using assms by simp

section \<open>Standardization: the contract of the strategies\<close>

text \<open>
  Claim C7, as amended. Let the input be a list of records whose values under the key
  field can index a dictionary, and let the source have a name. With a non-empty key
  and any strategy other than \<^verbatim>\<open>group_by\<close>, the result is a dictionary without two equal
  keys in which every key leads to the last record of the input under that key. With
  a non-empty key and the strategy \<^verbatim>\<open>group_by\<close>, the result is a dictionary without two
  equal keys in which every key leads to the list of all the records under that key,
  in the order of the input, records whose key is \<^verbatim>\<open>None\<close> being left out. With no key
  and a strategy other than \<^verbatim>\<open>group_by\<close> the input comes back unchanged; with no key and
  the strategy \<^verbatim>\<open>group_by\<close> the call raises \<^verbatim>\<open>ValueError\<close>.
\<close>

theorem standardize_source_contract:
  assumes "list_all (is_keyed_record kf) items" and "kf \<noteq> []" and "ss_name spec \<noteq> None"
  shows "(ss_strategy spec \<noteq> Some ''group_by'' \<and> ss_key spec = Some kf \<longrightarrow>
            (\<exists>table. standardize_source (VList items) spec = Inr (VDict table) \<and>
               distinct_keys table \<and>
               (\<forall>q. dict_lookup table q = last_record_with kf q items))) \<and>
         (ss_strategy spec = Some ''group_by'' \<and> ss_key spec = Some kf \<longrightarrow>
            (\<exists>g. standardize_source (VList items) spec = Inr (VDict g) \<and>
               distinct_keys g \<and>
               (\<forall>q. dict_lookup g q =
                  (if records_with kf q items = [] then None
                   else Some (VList (records_with kf q items)))))) \<and>
         (ss_strategy spec \<noteq> Some ''group_by'' \<and> ss_key spec = None \<longrightarrow>
            standardize_source data spec = Inr data) \<and>
         (ss_strategy spec = Some ''group_by'' \<and> ss_key spec = None \<longrightarrow>
            standardize_source data spec = Inl ValueError)"
proof -
  have lookup: "standardize_source (VList items) spec = create_lookup_map (VList items) kf"
    if "ss_strategy spec \<noteq> Some ''group_by''" and "ss_key spec = Some kf"
    using that assms(2,3) by (auto simp: standardize_source_def Let_def split: option.splits)
  have group: "standardize_source (VList items) spec = create_grouping_map (VList items) kf"
    if "ss_strategy spec = Some ''group_by''" and "ss_key spec = Some kf"
    using that assms(2,3) by (auto simp: standardize_source_def Let_def)
  have nokey: "standardize_source data spec = Inr data"
    if "ss_strategy spec \<noteq> Some ''group_by''" and "ss_key spec = None"
    using that assms(3) by (auto simp: standardize_source_def Let_def split: option.splits)
  have bad: "standardize_source data spec = Inl ValueError"
    if "ss_strategy spec = Some ''group_by''" and "ss_key spec = None"
    using that assms(3) by (auto simp: standardize_source_def Let_def)
  show ?thesis
    using lookup group nokey bad
      create_lookup_map_keyed [OF assms(1)] create_grouping_map_keyed [OF assms(1)]
    by simp
qed

lemmas dict_eval = dict_get_def dict_get_default_def scalar_eq_def records_with_def

theorem standardize_source_contract_witness:
  "list_all (is_keyed_record ''id'')
     [VDict [(VStr ''id'', VInt 1), (VStr ''n'', VStr ''a'')],
      VDict [(VStr ''n'', VStr ''b'')],
      VDict [(VStr ''id'', VInt 1), (VStr ''n'', VStr ''c'')]] \<and>
   (\<exists>table. standardize_source
       (VList [VDict [(VStr ''id'', VInt 1), (VStr ''n'', VStr ''a'')],
               VDict [(VStr ''n'', VStr ''b'')],
               VDict [(VStr ''id'', VInt 1), (VStr ''n'', VStr ''c'')]])
       \<lparr>ss_name = Some ''src'', ss_strategy = None, ss_key = Some ''id''\<rparr> = Inr (VDict table) \<and>
      dict_lookup table (VInt 1) = Some (VDict [(VStr ''id'', VInt 1), (VStr ''n'', VStr ''c'')])) \<and>
   (\<exists>g. standardize_source
       (VList [VDict [(VStr ''id'', VInt 1), (VStr ''n'', VStr ''a'')],
               VDict [(VStr ''n'', VStr ''b'')],
               VDict [(VStr ''id'', VInt 1), (VStr ''n'', VStr ''c'')]])
       \<lparr>ss_name = Some ''src'', ss_strategy = Some ''group_by'', ss_key = Some ''id''\<rparr> =
         Inr (VDict g) \<and>
      dict_lookup g (VInt 1) =
        Some (VList [VDict [(VStr ''id'', VInt 1), (VStr ''n'', VStr ''a'')],
                     VDict [(VStr ''id'', VInt 1), (VStr ''n'', VStr ''c'')]]) \<and>
      dict_lookup g VNone = None) \<and>
   standardize_source (VList [])
     \<lparr>ss_name = Some ''src'', ss_strategy = None, ss_key = None\<rparr> = Inr (VList [])"
  using standardize_source_contract
    [of "''id''"
        "[VDict [(VStr ''id'', VInt 1), (VStr ''n'', VStr ''a'')],
          VDict [(VStr ''n'', VStr ''b'')],
          VDict [(VStr ''id'', VInt 1), (VStr ''n'', VStr ''c'')]]"
        "\<lparr>ss_name = Some ''src'', ss_strategy = None, ss_key = Some ''id''\<rparr>"]
    standardize_source_contract
    [of "''id''"
        "[VDict [(VStr ''id'', VInt 1), (VStr ''n'', VStr ''a'')],
          VDict [(VStr ''n'', VStr ''b'')],
          VDict [(VStr ''id'', VInt 1), (VStr ''n'', VStr ''c'')]]"
        "\<lparr>ss_name = Some ''src'', ss_strategy = Some ''group_by'', ss_key = Some ''id''\<rparr>"]
    standardize_source_contract
    [of "''id''" "[]" "\<lparr>ss_name = Some ''src'', ss_strategy = None, ss_key = None\<rparr>" "VList []"]
  by (auto simp: dict_eval)

text \<open>
  The claim as stated fails for the strategy \<^verbatim>\<open>group_by\<close>: without a key the input is
  not returned, the guard of the code raises \<^verbatim>\<open>ValueError\<close>.
\<close>

theorem standardize_source_group_by_without_key:
  "ss_key \<lparr>ss_name = Some ''src'', ss_strategy = Some ''group_by'', ss_key = None\<rparr> = None \<and>
   standardize_source (VList [VDict [(VStr ''id'', VInt 1)]])
     \<lparr>ss_name = Some ''src'', ss_strategy = Some ''group_by'', ss_key = None\<rparr> = Inl ValueError"
  by (simp add: standardize_source_def Let_def)

text \<open>
  Claim C10. When the records can be indexed and one of them lacks the key field, the
  table built by \<^verbatim>\<open>create_lookup_map\<close> has an entry under the key \<^verbatim>\<open>None\<close>, which is the last
  record of the input whose key is \<^verbatim>\<open>None\<close>; the table built by \<^verbatim>\<open>create_grouping_map\<close> from
  the same input has no entry under \<^verbatim>\<open>None\<close>.
\<close>

theorem lookup_map_keeps_records_without_key:
  assumes "list_all (is_keyed_record kf) items"
    and "VDict r \<in> set items" and "dict_lookup r (VStr kf) = None"
  shows "\<exists>table g. create_lookup_map (VList items) kf = Inr (VDict table) \<and>
           dict_lookup table VNone = last_record_with kf VNone items \<and>
           dict_lookup table VNone \<noteq> None \<and>
           create_grouping_map (VList items) kf = Inr (VDict g) \<and>
           dict_lookup g VNone = None"
proof -
  from create_lookup_map_keyed [OF assms(1)]
  obtain table where t: "create_lookup_map (VList items) kf = Inr (VDict table)"
    and tl: "\<And>q. dict_lookup table q = last_record_with kf q items"
    by blast
  from create_grouping_map_keyed [OF assms(1)]
  obtain g where g: "create_grouping_map (VList items) kf = Inr (VDict g)"
    and gl: "\<And>q. dict_lookup g q =
              (if records_with kf q items = [] then None else Some (VList (records_with kf q items)))"
    by blast
  have "record_key kf (VDict r) = VNone"
    using assms(3) by (simp add: dict_get_def)
  then have "last_record_with kf VNone items \<noteq> None"
    using last_record_with_mem [OF assms(2), of kf VNone] by (simp add: scalar_eq_None)
  moreover have "records_with kf VNone items = []"
    by (simp add: records_with_def scalar_eq_None)
  ultimately show ?thesis
    using t tl g gl by simp
qed

theorem lookup_map_keeps_records_without_key_witness:
  "list_all (is_keyed_record ''id'')
     [VDict [(VStr ''n'', VStr ''a'')], VDict [(VStr ''id'', VInt 1)], VDict [(VStr ''n'', VStr ''b'')]] \<and>
   VDict [(VStr ''n'', VStr ''a'')] \<in>
     set [VDict [(VStr ''n'', VStr ''a'')], VDict [(VStr ''id'', VInt 1)], VDict [(VStr ''n'', VStr ''b'')]] \<and>
   dict_lookup [(VStr ''n'', VStr ''a'')] (VStr ''id'') = None \<and>
   (\<exists>table g. create_lookup_map
        (VList [VDict [(VStr ''n'', VStr ''a'')], VDict [(VStr ''id'', VInt 1)],
                VDict [(VStr ''n'', VStr ''b'')]]) ''id'' = Inr (VDict table) \<and>
      dict_lookup table VNone = Some (VDict [(VStr ''n'', VStr ''b'')]) \<and>
      create_grouping_map
        (VList [VDict [(VStr ''n'', VStr ''a'')], VDict [(VStr ''id'', VInt 1)],
                VDict [(VStr ''n'', VStr ''b'')]]) ''id'' = Inr (VDict g) \<and>
      dict_lookup g VNone = None)"
  using lookup_map_keeps_records_without_key
    [of "''id''"
        "[VDict [(VStr ''n'', VStr ''a'')], VDict [(VStr ''id'', VInt 1)], VDict [(VStr ''n'', VStr ''b'')]]"
        "[(VStr ''n'', VStr ''a'')]"]
  by (auto simp: dict_eval)

lemmas rule_forms = direct_rule_def parent_rule_def linked_rule_def coalesce_rule_def
  object_rule_def list_rule_def

lemmas res_eval = ret_def raise_def lift_def log_then_def bind_def warn_unless_def

section \<open>Coalesce rules\<close>

text \<open>
  Claim C2. For a rule with a \<^verbatim>\<open>coalesce\<close> list: when the sub-rules before some sub-rule
  all resolve to \<^verbatim>\<open>None\<close> and that sub-rule resolves to a value that is not \<^verbatim>\<open>None\<close>, the
  field's value is that value and the diagnostics are those of the sub-rules up to it,
  whatever the sub-rules after it are (they are not evaluated, so one that would raise
  changes nothing). When every sub-rule resolves to \<^verbatim>\<open>None\<close> the value is \<^verbatim>\<open>None\<close> and the
  field is stored in the output record with that value. Each sub-rule is resolved by
  the value lookup followed by its transform.
\<close>

theorem coalesce_rule_value:
  assumes "r_coalesce rule = Some rs"
  shows "(\<forall>before winner after v.
            rs = before @ winner # after \<and>
            (\<forall>r\<in>set before. snd (resolve_simple_value pf ctx r ad) = Inr VNone) \<and>
            snd (resolve_simple_value pf ctx winner ad) = Inr v \<and> v \<noteq> VNone \<longrightarrow>
            build_field pf ctx key rule ad =
              (concat (map (\<lambda>r. fst (resolve_simple_value pf ctx r ad)) (before @ [winner])),
               Inr v)) \<and>
         ((\<forall>r\<in>set rs. snd (resolve_simple_value pf ctx r ad) = Inr VNone) \<longrightarrow>
            build_field pf ctx key rule ad =
              (concat (map (\<lambda>r. fst (resolve_simple_value pf ctx r ad)) rs), Inr VNone) \<and>
            (r_condition rule = None \<longrightarrow>
               snd (build_fields pf ctx ((key, rule) # rest) ad out) =
               snd (build_fields pf ctx rest ad (dict_set out (VStr key) VNone)))) \<and>
         (\<forall>r. resolve_simple_value pf ctx r ad =
            bind (get_value ctx r ad False) (\<lambda>raw_value. apply_transform pf raw_value r ad))"
proof (intro conjI allI impI)
  fix before winner after v
  assume "rs = before @ winner # after \<and>
            (\<forall>r\<in>set before. snd (resolve_simple_value pf ctx r ad) = Inr VNone) \<and>
            snd (resolve_simple_value pf ctx winner ad) = Inr v \<and> v \<noteq> VNone"
  then show "build_field pf ctx key rule ad =
              (concat (map (\<lambda>r. fst (resolve_simple_value pf ctx r ad)) (before @ [winner])),
               Inr v)"
    using assms by (simp add: build_field_coalesce coalesce_loop_winner del: map_append)
next
  assume null: "\<forall>r\<in>set rs. snd (resolve_simple_value pf ctx r ad) = Inr VNone"
  then show f: "build_field pf ctx key rule ad =
              (concat (map (\<lambda>r. fst (resolve_simple_value pf ctx r ad)) rs), Inr VNone)"
    using assms by (simp add: build_field_coalesce coalesce_loop_all_null)
  assume "r_condition rule = None"
  then show "snd (build_fields pf ctx ((key, rule) # rest) ad out) =
               snd (build_fields pf ctx rest ad (dict_set out (VStr key) VNone))"
    using f by simp
next
  fix r
  show "resolve_simple_value pf ctx r ad =
            bind (get_value ctx r ad False) (\<lambda>raw_value. apply_transform pf raw_value r ad)"
    by (simp add: resolve_simple_value_def)
qed


theorem coalesce_rule_value_witness:
  "r_coalesce (coalesce_rule
       [direct_rule ''item'' ''a'', direct_rule ''item'' ''b'',
        Rule (Some (direct_rule ''item'' ''b'')) None None None None None None None None None None]) =
     Some ([direct_rule ''item'' ''a''] @ direct_rule ''item'' ''b'' #
        [Rule (Some (direct_rule ''item'' ''b'')) None None None None None None None None None None]) \<and>
   snd (resolve_simple_value (\<lambda>s. None) (VDict [(VStr ''item'', VDict [(VStr ''b'', VInt 5)])])
          (direct_rule ''item'' ''a'') Map.empty) = Inr VNone \<and>
   snd (resolve_simple_value (\<lambda>s. None) (VDict [(VStr ''item'', VDict [(VStr ''b'', VInt 5)])])
          (direct_rule ''item'' ''b'') Map.empty) = Inr (VInt 5) \<and>
   snd (resolve_simple_value (\<lambda>s. None) (VDict [(VStr ''item'', VDict [(VStr ''b'', VInt 5)])])
          (Rule (Some (direct_rule ''item'' ''b'')) None None None None None None None None None None)
          Map.empty) = Inl KeyError \<and>
   build_field (\<lambda>s. None) (VDict [(VStr ''item'', VDict [(VStr ''b'', VInt 5)])]) ''x''
     (coalesce_rule
       [direct_rule ''item'' ''a'', direct_rule ''item'' ''b'',
        Rule (Some (direct_rule ''item'' ''b'')) None None None None None None None None None None])
     Map.empty = ([], Inr (VInt 5))"
proof -
  let ?ctx = "VDict [(VStr ''item'', VDict [(VStr ''b'', VInt 5)])]"
  let ?bad = "Rule (Some (direct_rule ''item'' ''b'')) None None None None None None None None None None"
  let ?rule = "coalesce_rule [direct_rule ''item'' ''a'', direct_rule ''item'' ''b'', ?bad]"
  have h: "r_coalesce ?rule =
      Some ([direct_rule ''item'' ''a''] @ direct_rule ''item'' ''b'' # [?bad])"
    by (simp add: rule_forms)
  have a: "resolve_simple_value (\<lambda>s. None) ?ctx (direct_rule ''item'' ''a'') Map.empty = ([], Inr VNone)"
    by (simp add: resolve_simple_value_def apply_transform_def rule_forms res_eval dict_eval)
  have b: "resolve_simple_value (\<lambda>s. None) ?ctx (direct_rule ''item'' ''b'') Map.empty = ([], Inr (VInt 5))"
    by (simp add: resolve_simple_value_def apply_transform_def rule_forms res_eval dict_eval)
  have c: "snd (resolve_simple_value (\<lambda>s. None) ?ctx ?bad Map.empty) = Inl KeyError"
    by (simp add: resolve_simple_value_def rule_forms res_eval)
  from coalesce_rule_value [OF h, THEN conjunct1, rule_format,
      where before = "[direct_rule ''item'' ''a'']" and winner = "direct_rule ''item'' ''b''"
        and after = "[?bad]" and v = "VInt 5" and pf = "\<lambda>s. None" and ctx = ?ctx
        and ad = Map.empty and key = "''x''"]
  have "build_field (\<lambda>s. None) ?ctx ''x'' ?rule Map.empty = ([], Inr (VInt 5))"
    using a b by simp
  with h a b c show ?thesis by simp
qed

lemma build_field_object:
  assumes "r_coalesce rule = None" and "r_type rule = Some ''object''"
  shows "build_field pf ctx key rule ad =
           (case r_fields rule of
              None \<Rightarrow> ([(Error, ObjectMissingFields key)], Inr VNone)
            | Some fs \<Rightarrow> build_node pf ctx fs ad)"
  using assms by (cases rule) (simp add: build_node_def split: option.splits)

lemma map_res_const:
  "(\<And>x. f x = (l, Inr y)) \<Longrightarrow>
   map_res f xs = (concat (map (\<lambda>x. l) xs), Inr (map (\<lambda>x. y) xs))"
  by (induction xs) (simp_all add: ret_def log_then_def)

section \<open>Object rules\<close>

text \<open>
  Claim C9. For a rule of type \<^verbatim>\<open>object\<close> (without \<^verbatim>\<open>coalesce\<close>): when the nested field
  definitions are missing, the value of the field is \<^verbatim>\<open>None\<close>, one error diagnostic is
  logged and no exception is raised; when the rule's condition holds, the loop goes on
  with the remaining fields of the structure, the field being stored as \<^verbatim>\<open>None\<close>; and a
  run over any list of items yields one record per item. When the field definitions
  are present, the value is \<^verbatim>\<open>_build_node\<close> applied to them with the same context.
\<close>

theorem object_rule_value:
  assumes "r_coalesce rule = None" and "r_type rule = Some ''object''"
  shows "(r_fields rule = None \<longrightarrow>
            build_field pf ctx key rule ad = ([(Error, ObjectMissingFields key)], Inr VNone) \<and>
            (snd (case r_condition rule of
                    None \<Rightarrow> ret True
                  | Some c \<Rightarrow> check_condition ctx c ad) = Inr True \<longrightarrow>
               build_fields pf ctx ((key, rule) # rest) ad out =
                 log_then
                   (fst (case r_condition rule of
                           None \<Rightarrow> ret True
                         | Some c \<Rightarrow> check_condition ctx c ad) @
                    [(Error, ObjectMissingFields key)])
                   (build_fields pf ctx rest ad (dict_set out (VStr key) VNone))) \<and>
            (r_condition rule = None \<and> sp_output_structure spec = Some [(key, rule)] \<and>
             sp_resolution_strategy spec = Some ''union'' \<longrightarrow>
               resolve_data pf spec ad items =
                 (concat (map (\<lambda>item. [(Error, ObjectMissingFields key)]) items),
                  Inr (map (\<lambda>item. VDict [(VStr key, VNone)]) items)))) \<and>
         (\<forall>fs. r_fields rule = Some fs \<longrightarrow>
            build_field pf ctx key rule ad = build_node pf ctx fs ad)"
proof (intro conjI allI impI)
  assume none: "r_fields rule = None"
  show f: "build_field pf ctx key rule ad = ([(Error, ObjectMissingFields key)], Inr VNone)" for ctx
    using build_field_object [OF assms] none by simp
  let ?c = "case r_condition rule of None \<Rightarrow> ret True | Some c \<Rightarrow> check_condition ctx c ad"
  show "build_fields pf ctx ((key, rule) # rest) ad out =
          log_then (fst ?c @ [(Error, ObjectMissingFields key)])
            (build_fields pf ctx rest ad (dict_set out (VStr key) VNone))"
    if "snd ?c = Inr True"
  proof -
    from that have "?c = (fst ?c, Inr True)"
      by (metis prod.collapse)
    then show ?thesis using f by (rule build_fields_included)
  qed
  show "resolve_data pf spec ad items =
                 (concat (map (\<lambda>item. [(Error, ObjectMissingFields key)]) items),
                  Inr (map (\<lambda>item. VDict [(VStr key, VNone)]) items))"
    if "r_condition rule = None \<and> sp_output_structure spec = Some [(key, rule)] \<and>
             sp_resolution_strategy spec = Some ''union''"
  proof -
    have "bind (root_context spec item) (\<lambda>context. build_node pf context [(key, rule)] ad) =
            ([(Error, ObjectMissingFields key)], Inr (VDict [(VStr key, VNone)]))" for item
      using that f by (simp add: root_context_def build_node_def ret_def log_then_def)
    then show ?thesis
      using that by (simp add: resolve_data_def map_res_const)
  qed
next
  fix fs
  assume "r_fields rule = Some fs"
  then show "build_field pf ctx key rule ad = build_node pf ctx fs ad"
    using build_field_object [OF assms] by simp
qed

theorem object_rule_value_witness:
  "r_coalesce (object_rule None) = None \<and> r_type (object_rule None) = Some ''object'' \<and>
   r_fields (object_rule None) = None \<and>
   build_node (\<lambda>s. None) (VDict [(VStr ''item'', VDict [(VStr ''b'', VInt 5)])])
     [(''o'', object_rule None), (''n'', direct_rule ''item'' ''b'')] Map.empty =
     ([(Error, ObjectMissingFields ''o'')], Inr (VDict [(VStr ''o'', VNone), (VStr ''n'', VInt 5)])) \<and>
   resolve_data (\<lambda>s. None)
     \<lparr>sp_output_structure = Some [(''o'', object_rule None)],
      sp_resolution_strategy = Some ''union'', sp_primary_source = None\<rparr>
     Map.empty [VInt 1, VInt 2] =
     ([(Error, ObjectMissingFields ''o''), (Error, ObjectMissingFields ''o'')],
      Inr [VDict [(VStr ''o'', VNone)], VDict [(VStr ''o'', VNone)]]) \<and>
   build_field (\<lambda>s. None) (VDict [(VStr ''item'', VDict [(VStr ''b'', VInt 5)])]) ''o''
     (object_rule (Some [(''n'', direct_rule ''item'' ''b'')])) Map.empty =
     ([], Inr (VDict [(VStr ''n'', VInt 5)]))"
proof -
  let ?ctx = "VDict [(VStr ''item'', VDict [(VStr ''b'', VInt 5)])]"
  have h1: "r_coalesce (object_rule fs) = None" and h2: "r_type (object_rule fs) = Some ''object''"
    and h3: "r_fields (object_rule fs) = fs" and h4: "r_condition (object_rule fs) = None" for fs
    by (simp_all add: rule_forms)
  have n: "build_fields (\<lambda>s. None) ?ctx [(''n'', direct_rule ''item'' ''b'')] Map.empty out =
      ([], Inr (VDict (dict_set out (VStr ''n'') (VInt 5))))" for out
    by (simp add: resolve_simple_value_def apply_transform_def rule_forms res_eval dict_eval)
  note t = object_rule_value [OF h1 h2, where pf = "\<lambda>s. None" and ad = Map.empty and key = "''o''"]
  from t [where fs1 = None and ctx = ?ctx and rest = "[(''n'', direct_rule ''item'' ''b'')]"
            and out = "[]"
            and spec = "\<lparr>sp_output_structure = Some [(''o'', object_rule None)],
                         sp_resolution_strategy = Some ''union'', sp_primary_source = None\<rparr>"
            and items = "[VInt 1, VInt 2]"]
      t [where fs1 = "Some [(''n'', direct_rule ''item'' ''b'')]" and ctx = ?ctx]
  show ?thesis
    by (simp add: h1 h2 h3 h4 n build_node_def res_eval dict_eval del: build_fields.simps)
qed

lemma snd_map_res_Cons:
  "snd (map_res f (x # xs)) =
     (case snd (f x) of
        Inl e \<Rightarrow> Inl e
      | Inr y \<Rightarrow> (case snd (map_res f xs) of Inl e \<Rightarrow> Inl e | Inr ys \<Rightarrow> Inr (y # ys)))"
  by (simp add: snd_bind split: sum.splits)

lemma snd_map_res:
  "snd (map_res f xs) = Inr ys \<longleftrightarrow> list_all2 (\<lambda>x y. snd (f x) = Inr y) xs ys"
proof (induction xs arbitrary: ys)
  case Nil
  show ?case by (auto simp: ret_def)
next
  case (Cons x xs)
  show ?case
  proof
    assume "snd (map_res f (x # xs)) = Inr ys"
    then obtain y zs where "snd (f x) = Inr y" and "snd (map_res f xs) = Inr zs" and "ys = y # zs"
      unfolding snd_map_res_Cons by (auto split: sum.splits)
    then show "list_all2 (\<lambda>x y. snd (f x) = Inr y) (x # xs) ys"
      using Cons.IH [of zs] by simp
  next
    assume "list_all2 (\<lambda>x y. snd (f x) = Inr y) (x # xs) ys"
    then obtain y zs where "ys = y # zs" and "snd (f x) = Inr y"
      and "list_all2 (\<lambda>x y. snd (f x) = Inr y) xs zs"
      by (auto simp: list_all2_Cons1)
    then show "snd (map_res f (x # xs)) = Inr ys"
      unfolding snd_map_res_Cons using Cons.IH [of zs] by simp
  qed
qed

section \<open>The driver: one record per item\<close>

text \<open>
  Claim C8. With the output structure declared, \<^verbatim>\<open>resolve_data\<close> returns a list \<open>outs\<close>
  exactly when \<open>outs\<close> has one record per item, in the order of the items, the record
  at each position being the result of \<^verbatim>\<open>_build_node\<close> on the root context of the item at
  that position: \<^verbatim>\<open>{'union_id': item}\<close> for the union strategy, \<^verbatim>\<open>{primary_source: item}\<close>
  otherwise. In particular the output is as long as the input.
\<close>

theorem resolve_data_one_record_per_item:
  assumes "sp_output_structure spec = Some st"
  shows "(sp_resolution_strategy spec = Some ''union'' \<longrightarrow>
            (snd (resolve_data pf spec ad items) = Inr outs \<longleftrightarrow>
             list_all2 (\<lambda>item out.
                 snd (build_node pf (VDict [(VStr ''union_id'', item)]) st ad) = Inr out)
               items outs)) \<and>
         (sp_resolution_strategy spec \<noteq> Some ''union'' \<and> sp_primary_source spec = Some p \<longrightarrow>
            (snd (resolve_data pf spec ad items) = Inr outs \<longleftrightarrow>
             list_all2 (\<lambda>item out.
                 snd (build_node pf (VDict [(VStr p, item)]) st ad) = Inr out)
               items outs)) \<and>
         (snd (resolve_data pf spec ad items) = Inr outs \<longrightarrow> length outs = length items)"
proof -
  have r: "snd (resolve_data pf spec ad items) = Inr outs \<longleftrightarrow>
      list_all2 (\<lambda>item out.
          snd (bind (root_context spec item) (\<lambda>context. build_node pf context st ad)) = Inr out)
        items outs"
    using assms by (simp add: resolve_data_def snd_map_res)
  have u: "snd (bind (root_context spec item) (\<lambda>context. build_node pf context st ad)) =
             snd (build_node pf (VDict [(VStr ''union_id'', item)]) st ad)"
    if "sp_resolution_strategy spec = Some ''union''" for item
    using that by (simp add: root_context_def)
  have q: "snd (bind (root_context spec item) (\<lambda>context. build_node pf context st ad)) =
             snd (build_node pf (VDict [(VStr p, item)]) st ad)"
    if "sp_resolution_strategy spec \<noteq> Some ''union''" and "sp_primary_source spec = Some p" for item
    using that by (simp add: root_context_def)
  have len: "length outs = length items" if "snd (resolve_data pf spec ad items) = Inr outs"
    using that r by (auto dest: list_all2_lengthD)
  show ?thesis
    using len by (simp add: r u q)
qed


theorem resolve_data_one_record_per_item_witness:
  "sp_output_structure
     \<lparr>sp_output_structure = Some [(''n'', direct_rule ''item'' ''b'')],
      sp_resolution_strategy = None, sp_primary_source = Some ''item''\<rparr> =
     Some [(''n'', direct_rule ''item'' ''b'')] \<and>
   snd (resolve_data (\<lambda>s. None)
     \<lparr>sp_output_structure = Some [(''n'', direct_rule ''item'' ''b'')],
      sp_resolution_strategy = None, sp_primary_source = Some ''item''\<rparr>
     Map.empty [VDict [(VStr ''b'', VInt 1)], VDict [(VStr ''b'', VInt 2)]]) =
     Inr [VDict [(VStr ''n'', VInt 1)], VDict [(VStr ''n'', VInt 2)]]"
proof -
  let ?spec = "\<lparr>sp_output_structure = Some [(''n'', direct_rule ''item'' ''b'')],
      sp_resolution_strategy = None, sp_primary_source = Some ''item''\<rparr>"
  have h: "sp_output_structure ?spec = Some [(''n'', direct_rule ''item'' ''b'')]"
    by simp
  have b: "snd (build_node (\<lambda>s. None) (VDict [(VStr ''item'', VDict [(VStr ''b'', VInt i)])])
             [(''n'', direct_rule ''item'' ''b'')] Map.empty) = Inr (VDict [(VStr ''n'', VInt i)])" for i
    by (simp add: build_node_def resolve_simple_value_def apply_transform_def rule_forms
        res_eval dict_eval)
  from resolve_data_one_record_per_item [OF h, where p = "''item''" and pf = "\<lambda>s. None"
      and ad = Map.empty and items = "[VDict [(VStr ''b'', VInt 1)], VDict [(VStr ''b'', VInt 2)]]"
      and outs = "[VDict [(VStr ''n'', VInt 1)], VDict [(VStr ''n'', VInt 2)]]"]
  show ?thesis
    by (simp add: b)
qed

lemma scalar_eq_VStr [simp]: "scalar_eq (VStr a) (VStr b) = (a = b)"
  by (simp add: scalar_eq_def)



lemma snd_build_fields_Cons:
  "snd (build_fields pf ctx ((k, r) # rest) ad out) =
     (case snd (case r_condition r of None \<Rightarrow> ret True | Some c \<Rightarrow> check_condition ctx c ad) of
        Inl e \<Rightarrow> Inl e
      | Inr included \<Rightarrow>
          if \<not> included then snd (build_fields pf ctx rest ad out)
          else (case snd (build_field pf ctx k r ad) of
                  Inl e \<Rightarrow> Inl e
                | Inr v \<Rightarrow> snd (build_fields pf ctx rest ad (dict_set out (VStr k) v))))"
  by (simp add: snd_bind split: sum.splits)




lemma snd_check_condition:
  assumes "c_source c = Some name" and "c_key c = Some kr"
  shows "snd (check_condition ctx c ad) =
           (case snd (get_value ctx kr ad True) of
              Inl e \<Rightarrow> Inl e
            | Inr k \<Rightarrow>
                if k = VNone then Inr False
                else (case py_in k (data_get_default ad name (VDict [])) of
                        Inl e \<Rightarrow> Inl e
                      | Inr m \<Rightarrow> Inr (if c_exists c = Some True then m else \<not> m)))"
  using assms by (simp add: check_condition_def snd_bind Let_def split: sum.splits)

section \<open>Conditional fields\<close>






section \<open>The split transform\<close>




lemma snd_get_value_linked:
  assumes "r_link_key rule = Some lk" and "r_from rule = Some name"
  shows "snd (get_value ctx rule ad silent) =
           (if data_get ad name = VNone then Inr VNone
            else (case snd (get_value ctx lk ad True) of
                    Inl e \<Rightarrow> Inl e
                  | Inr k \<Rightarrow>
                      if k = VNone then Inr VNone
                      else (case val_get (data_get ad name) k of
                              Inl e \<Rightarrow> Inl e
                            | Inr item \<Rightarrow>
                                if item = VNone then Inr VNone
                                else (case r_field rule of
                                        None \<Rightarrow> Inr item
                                      | Some f \<Rightarrow>
                                          (case item of
                                             VDict d \<Rightarrow> Inr (dict_get d (VStr f))
                                           | _ \<Rightarrow> Inr VNone)))))"
proof (cases rule)
  case (Rule x1 x2 x3 x4 x5 x6 x7 x8 x9 x10 x11)
  with assms show ?thesis
    by (simp add: snd_bind Let_def ret_def split: sum.splits option.splits val.splits)
qed

section \<open>Linked rules\<close>

text \<open>
  Claim C5, as amended. For a rule with a \<^verbatim>\<open>link_key\<close> and a table name: when the table is
  absent from the table set, or the link key resolves to \<^verbatim>\<open>None\<close>, the value is \<^verbatim>\<open>None\<close>
  and nothing is raised. When the link key resolves to a value other than \<^verbatim>\<open>None\<close> that
  can be hashed and the table is a dictionary: without an entry for the key the value
  is \<^verbatim>\<open>None\<close>; with an entry and a declared field, the value is that field of the entry
  when the entry is a record and \<^verbatim>\<open>None\<close> when it is not; with an entry and no field, the
  value is the entry itself.
\<close>

theorem linked_rule_value:
  assumes "r_link_key rule = Some lk" and "r_from rule = Some name"
  shows "(data_get ad name = VNone \<longrightarrow> snd (get_value ctx rule ad silent) = Inr VNone) \<and>
         (snd (get_value ctx lk ad True) = Inr VNone \<longrightarrow>
            snd (get_value ctx rule ad silent) = Inr VNone) \<and>
         (snd (get_value ctx lk ad True) = Inr k \<and> k \<noteq> VNone \<and> hashable k \<and>
          data_get ad name = VDict d \<longrightarrow>
            (dict_lookup d k = None \<longrightarrow> snd (get_value ctx rule ad silent) = Inr VNone) \<and>
            (\<forall>entry. dict_lookup d k = Some entry \<longrightarrow>
               (r_field rule = None \<longrightarrow> snd (get_value ctx rule ad silent) = Inr entry) \<and>
               (\<forall>f. r_field rule = Some f \<longrightarrow>
                  (\<forall>e. entry = VDict e \<longrightarrow>
                     snd (get_value ctx rule ad silent) = Inr (dict_get e (VStr f))) \<and>
                  ((\<forall>e. entry \<noteq> VDict e) \<longrightarrow>
                     snd (get_value ctx rule ad silent) = Inr VNone))))"
proof (intro conjI impI allI)
  assume "data_get ad name = VNone"
  then show "snd (get_value ctx rule ad silent) = Inr VNone"
    by (simp add: snd_get_value_linked [OF assms])
next
  assume "snd (get_value ctx lk ad True) = Inr VNone"
  then show "snd (get_value ctx rule ad silent) = Inr VNone"
    by (simp add: snd_get_value_linked [OF assms])
next
  assume h: "snd (get_value ctx lk ad True) = Inr k \<and> k \<noteq> VNone \<and> hashable k \<and>
          data_get ad name = VDict d"
  show "snd (get_value ctx rule ad silent) = Inr VNone" if "dict_lookup d k = None"
    using h that by (simp add: snd_get_value_linked [OF assms] dict_get_def)
  fix entry
  assume e: "dict_lookup d k = Some entry"
  show "snd (get_value ctx rule ad silent) = Inr entry" if "r_field rule = None"
    using h e that by (simp add: snd_get_value_linked [OF assms] dict_get_def)
  fix f
  assume f: "r_field rule = Some f"
  show "snd (get_value ctx rule ad silent) = Inr (dict_get e' (VStr f))" if "entry = VDict e'" for e'
    using h e f that by (simp add: snd_get_value_linked [OF assms] dict_get_def)
  show "snd (get_value ctx rule ad silent) = Inr VNone" if "\<forall>e. entry \<noteq> VDict e"
    using h e f that by (cases entry) (simp_all add: snd_get_value_linked [OF assms] dict_get_def)
qed


theorem linked_rule_value_witness:
  "r_link_key (linked_rule (direct_rule ''spawner'' ''creature_id'') ''creatures'' (Some ''name'')) =
     Some (direct_rule ''spawner'' ''creature_id'') \<and>
   r_from (linked_rule (direct_rule ''spawner'' ''creature_id'') ''creatures'' (Some ''name'')) =
     Some ''creatures'' \<and>
   snd (get_value (VDict [(VStr ''spawner'', VDict [(VStr ''creature_id'', VStr ''c1'')])])
          (linked_rule (direct_rule ''spawner'' ''creature_id'') ''creatures'' (Some ''name''))
          [''creatures'' \<mapsto> VDict [(VStr ''c1'', VDict [(VStr ''name'', VStr ''Wolf'')])]] False) =
     Inr (VStr ''Wolf'') \<and>
   snd (get_value (VDict [(VStr ''spawner'', VDict [(VStr ''creature_id'', VStr ''missing'')])])
          (linked_rule (direct_rule ''spawner'' ''creature_id'') ''creatures'' (Some ''name''))
          [''creatures'' \<mapsto> VDict [(VStr ''c1'', VDict [(VStr ''name'', VStr ''Wolf'')])]] False) =
     Inr VNone"
proof -
  let ?lk = "direct_rule ''spawner'' ''creature_id''"
  let ?rule = "linked_rule ?lk ''creatures'' (Some ''name'')"
  let ?d = "[(VStr ''c1'', VDict [(VStr ''name'', VStr ''Wolf'')])]"
  let ?ad = "[''creatures'' \<mapsto> VDict ?d]"
  have h1: "r_link_key ?rule = Some ?lk" and h2: "r_from ?rule = Some ''creatures''"
    and h3: "r_field ?rule = Some ''name''"
    by (simp_all add: rule_forms)
  have key: "snd (get_value (VDict [(VStr ''spawner'', VDict [(VStr ''creature_id'', VStr c)])])
                ?lk ?ad True) = Inr (VStr c)" for c
    by (simp add: rule_forms res_eval dict_eval)
  have tab: "data_get ?ad ''creatures'' = VDict ?d"
    by (simp add: data_get_def)
  note t = linked_rule_value [OF h1 h2, where ad = ?ad and d = ?d and silent = False]
  from t [where ctx = "VDict [(VStr ''spawner'', VDict [(VStr ''creature_id'', VStr ''c1'')])]"
            and k = "VStr ''c1''"]
  have "snd (get_value (VDict [(VStr ''spawner'', VDict [(VStr ''creature_id'', VStr ''c1'')])])
          ?rule ?ad False) = Inr (VStr ''Wolf'')"
    by (simp add: key tab h3 dict_eval)
  moreover
  from t [where ctx = "VDict [(VStr ''spawner'', VDict [(VStr ''creature_id'', VStr ''missing'')])]"
            and k = "VStr ''missing''"]
  have "snd (get_value (VDict [(VStr ''spawner'', VDict [(VStr ''creature_id'', VStr ''missing'')])])
          ?rule ?ad False) = Inr VNone"
    by (simp add: key tab h3 dict_eval)
  ultimately show ?thesis
    using h1 h2 by simp
qed

text \<open>
  The claim as stated fails when the link key resolves to a list: the table has no
  entry for it, yet the lookup raises \<^verbatim>\<open>TypeError\<close> instead of yielding \<^verbatim>\<open>None\<close>.
\<close>

theorem linked_rule_unhashable_key:
  "snd (get_value
          (VDict [(VStr ''spawner'', VDict [(VStr ''creature_id'', VList [VStr ''c1''])])])
          (direct_rule ''spawner'' ''creature_id'')
          [''creatures'' \<mapsto> VDict [(VStr ''c1'', VDict [(VStr ''name'', VStr ''Wolf'')])]] True) =
     Inr (VList [VStr ''c1'']) \<and>
   dict_lookup [(VStr ''c1'', VDict [(VStr ''name'', VStr ''Wolf'')])] (VList [VStr ''c1'']) = None \<and>
   snd (get_value
          (VDict [(VStr ''spawner'', VDict [(VStr ''creature_id'', VList [VStr ''c1''])])])
          (linked_rule (direct_rule ''spawner'' ''creature_id'') ''creatures'' (Some ''name''))
          [''creatures'' \<mapsto> VDict [(VStr ''c1'', VDict [(VStr ''name'', VStr ''Wolf'')])]] False) =
     Inl TypeError"
  by (simp add: rule_forms res_eval dict_eval data_get_def)


lemma snd_build_field_list:
  assumes "r_coalesce rule = None" and "r_type rule = Some ''list''"
    and "r_link_key rule = Some lk" and "r_from rule = Some name"
  shows "snd (build_field pf ctx key rule ad) =
           (case snd (get_value ctx lk ad False) of
              Inl e \<Rightarrow> Inl e
            | Inr k \<Rightarrow>
                (case val_get (data_get_default ad name (VDict [])) k of
                   Inl e \<Rightarrow> Inl e
                 | Inr entry \<Rightarrow>
                     (case snd (linked_list_of (r_field rule) entry) of
                        Inl e \<Rightarrow> Inl e
                      | Inr linked_list \<Rightarrow>
                          (case r_sub_object rule of
                             None \<Rightarrow> Inr linked_list
                           | Some sub \<Rightarrow>
                               (case py_iter linked_list of
                                  Inl e \<Rightarrow> Inl e
                                | Inr items \<Rightarrow>
                                    (case snd (map_res (\<lambda>item. build_node pf item sub ad) items) of
                                       Inl e \<Rightarrow> Inl e
                                     | Inr ys \<Rightarrow> Inr (VList ys)))))))"
proof (cases rule)
  case (Rule x1 x2 x3 x4 x5 x6 x7 x8 x9 x10 x11)
  with assms show ?thesis
    by (simp add: snd_bind build_node_def split: sum.splits option.splits)
qed

section \<open>List rules\<close>





lemma get_value_absent_empty:
  assumes "data_get ae name = VDict []" and "data_get aa name = VNone"
    and "\<forall>n. n \<noteq> name \<longrightarrow> data_get aa n = data_get ae n"
    and "snd (get_value ctx r ae silent) = Inr v"
  shows "snd (get_value ctx r aa silent) = Inr v"
  using assms
proof (induction ctx r ae silent arbitrary: v rule: get_value.induct)
  case (1 cx lk frm fld fc fp tr cn co ty fs so all_data silent)
  note empty = "1.prems"(1) and absent = "1.prems"(2) and others = "1.prems"(3)
    and run = "1.prems"(4)
  show ?case
  proof (cases frm)
    case None
    with run show ?thesis by simp
  next
    case (Some n)
    show ?thesis
    proof (cases "n = name")
      case True
      with run Some empty have "v = VNone"
        by (auto simp: snd_bind Let_def dict_get_def split: sum.splits if_splits)
      with Some True absent show ?thesis
        by (simp add: warn_unless_def)
    next
      case False
      with others have same: "data_get aa n = data_get all_data n"
        by simp
      show ?thesis
      proof (cases "data_get all_data n = VNone")
        case True
        with run Some same show ?thesis
          by (simp add: warn_unless_def)
      next
        case nn: False
        with run Some obtain k where k: "snd (get_value cx lk all_data True) = Inr k"
          by (auto simp: snd_bind Let_def split: sum.splits)
        from "1.IH" [OF Some refl nn empty absent others k]
        have "snd (get_value cx lk aa True) = Inr k" .
        with run Some same nn k show ?thesis
          by (simp add: snd_bind Let_def)
      qed
    qed
  qed
next
  case (2 cx frm fld fc fp tr cn co ty fs so all_data silent)
  then show ?case by simp
qed


lemma absent_for_data_get:
  assumes "absent_for name aa ae"
  shows "data_get ae name = VDict []" and "data_get aa name = VNone"
    and "\<forall>n. n \<noteq> name \<longrightarrow> data_get aa n = data_get ae n"
  using assms by (simp_all add: absent_for_def data_get_def)

lemma absent_for_default:
  assumes "absent_for name aa ae"
  shows "data_get_default aa n (VDict []) = data_get_default ae n (VDict [])"
  using assms by (cases "n = name") (simp_all add: absent_for_def data_get_default_def)

lemma get_value_absent:
  assumes "absent_for name aa ae" and "snd (get_value ctx r ae silent) = Inr v"
  shows "snd (get_value ctx r aa silent) = Inr v"
  using absent_for_data_get [OF assms(1)] assms(2) by (rule get_value_absent_empty)

lemma check_condition_absent:
  assumes "absent_for name aa ae" and "snd (check_condition ctx c ae) = Inr b"
  shows "snd (check_condition ctx c aa) = Inr b"
proof (cases "c_source c")
  case None
  with assms(2) show ?thesis by (simp add: check_condition_def)
next
  case src: (Some n)
  show ?thesis
  proof (cases "c_key c")
    case None
    with assms(2) src show ?thesis by (simp add: check_condition_def)
  next
    case (Some kr)
    from assms(2) obtain k where k: "snd (get_value ctx kr ae True) = Inr k"
      by (auto simp: snd_check_condition [OF src Some] split: sum.splits)
    note k' = get_value_absent [OF assms(1) k]
    have "snd (check_condition ctx c aa) = snd (check_condition ctx c ae)"
      by (simp add: snd_check_condition [OF src Some] k k' absent_for_default [OF assms(1)])
    with assms(2) show ?thesis by simp
  qed
qed

lemma apply_transform_absent:
  assumes "absent_for name aa ae"
  shows "apply_transform pf v r aa = apply_transform pf v r ae"
  unfolding apply_transform_def absent_for_default [OF assms] by (rule refl)

lemma resolve_simple_value_absent:
  assumes "absent_for name aa ae" and "snd (resolve_simple_value pf ctx r ae) = Inr v"
  shows "snd (resolve_simple_value pf ctx r aa) = Inr v"
proof -
  from assms(2) obtain raw where raw: "snd (get_value ctx r ae False) = Inr raw"
    by (auto simp: resolve_simple_value_def snd_bind split: sum.splits)
  note raw' = get_value_absent [OF assms(1) raw]
  have "snd (resolve_simple_value pf ctx r aa) = snd (resolve_simple_value pf ctx r ae)"
    by (simp add: resolve_simple_value_def snd_bind raw raw' apply_transform_absent [OF assms(1)])
  with assms(2) show ?thesis by simp
qed

lemma snd_coalesce_loop_Cons:
  "snd (coalesce_loop pf ctx (r # rs) ad) =
     (case snd (resolve_simple_value pf ctx r ad) of
        Inl e \<Rightarrow> Inl e
      | Inr v \<Rightarrow> if v \<noteq> VNone then Inr v else snd (coalesce_loop pf ctx rs ad))"
  by (simp add: snd_bind split: sum.splits)

lemma coalesce_loop_absent:
  assumes "absent_for name aa ae"
  shows "snd (coalesce_loop pf ctx rs ae) = Inr v \<Longrightarrow> snd (coalesce_loop pf ctx rs aa) = Inr v"
proof (induction rs)
  case Nil
  then show ?case by simp
next
  case (Cons r rs)
  from Cons.prems obtain w where w: "snd (resolve_simple_value pf ctx r ae) = Inr w"
    unfolding snd_coalesce_loop_Cons by (auto split: sum.splits)
  note w' = resolve_simple_value_absent [OF assms w]
  show ?case
  proof (cases "w = VNone")
    case True
    with Cons.prems w have "snd (coalesce_loop pf ctx rs ae) = Inr v"
      unfolding snd_coalesce_loop_Cons by simp
    with Cons.IH w' True show ?thesis
      unfolding snd_coalesce_loop_Cons by simp
  next
    case False
    with Cons.prems w w' show ?thesis
      unfolding snd_coalesce_loop_Cons by simp
  qed
qed

lemma map_res_mono:
  assumes "\<And>x y. snd (f x) = Inr y \<Longrightarrow> snd (g x) = Inr y"
    and "snd (map_res f xs) = Inr ys"
  shows "snd (map_res g xs) = Inr ys"
proof -
  from assms(2) have "list_all2 (\<lambda>x y. snd (f x) = Inr y) xs ys"
    by (simp add: snd_map_res)
  then have "list_all2 (\<lambda>x y. snd (g x) = Inr y) xs ys"
    by (rule list_all2_mono) (rule assms(1))
  then show ?thesis by (simp add: snd_map_res)
qed


lemma condition_absent:
  assumes "absent_for name aa ae"
    and "snd (case r_condition r of None \<Rightarrow> ret True | Some c \<Rightarrow> check_condition ctx c ae) = Inr b"
  shows "snd (case r_condition r of None \<Rightarrow> ret True | Some c \<Rightarrow> check_condition ctx c aa) = Inr b"
  using assms by (cases "r_condition r") (simp_all add: check_condition_absent)

lemma build_absent:
  assumes "absent_for name aa ae"
  shows "snd (build_fields pf ctx st ae out) = Inr res \<Longrightarrow>
         snd (build_fields pf ctx st aa out) = Inr res"
    and "snd (build_field pf ctx key r ae) = Inr v \<Longrightarrow>
         snd (build_field pf ctx key r aa) = Inr v"
  using assms
proof (induction pf ctx st ae out and pf ctx key r ae arbitrary: res and v
    rule: build_fields_build_field.induct)
  case (1 py_float cx all_data output_node)
  then show ?case by simp
next
  case (2 py_float cx key rule rest all_data output_node)
  note run = "2.prems"(1) and A = "2.prems"(2)
  have ih1: "snd (build_fields py_float cx rest aa output_node) = Inr res'"
    if "snd (build_fields py_float cx rest all_data output_node) = Inr res'" for res'
    using "2.IH"(1) [of False res'] A that by simp
  have ih2: "snd (build_field py_float cx key rule aa) = Inr w"
    if "snd (build_field py_float cx key rule all_data) = Inr w" for w
    using "2.IH"(2) [of True w] A that by simp
  have ih3: "snd (build_fields py_float cx rest aa out') = Inr res'"
    if "snd (build_fields py_float cx rest all_data out') = Inr res'"
      and "out' = dict_set output_node (VStr key) w" for res' out' w
    using "2.IH"(3) [of True w res'] A that by simp
  from run obtain b where
    b: "snd (case r_condition rule of None \<Rightarrow> ret True | Some c \<Rightarrow> check_condition cx c all_data) =
          Inr b"
    unfolding snd_build_fields_Cons by (auto split: sum.splits)
  note b' = condition_absent [OF A b]
  show ?case
  proof (cases b)
    case False
    with run b have "snd (build_fields py_float cx rest all_data output_node) = Inr res"
      unfolding snd_build_fields_Cons by simp
    from ih1 [OF this] b' False show ?thesis
      unfolding snd_build_fields_Cons by simp
  next
    case True
    with run b obtain w where w: "snd (build_field py_float cx key rule all_data) = Inr w"
      unfolding snd_build_fields_Cons by (auto split: sum.splits)
    with run b True
    have "snd (build_fields py_float cx rest all_data (dict_set output_node (VStr key) w)) = Inr res"
      unfolding snd_build_fields_Cons by simp
    from ih3 [OF this refl] ih2 [OF w] b' True show ?thesis
      unfolding snd_build_fields_Cons by simp
  qed
next
  case (3 py_float cx key lk frm fld fc fp tr cn co ty fs so all_data)
  note run = "3.prems"(1) and A = "3.prems"(2)
  let ?rule = "Rule lk frm fld fc fp tr cn co ty fs so"
  show ?case
  proof (cases co)
    case (Some sub_rules)
    with run coalesce_loop_absent [OF A] show ?thesis by simp
  next
    case None
    show ?thesis
    proof (cases "ty = Some ''object''")
      case True
      show ?thesis
      proof (cases fs)
        case n: None
        with run None True show ?thesis by simp
      next
        case (Some fields)
        from "3.IH"(1) [OF None True Some _ A] run None True Some show ?thesis by simp
      qed
    next
      case no: False
      show ?thesis
      proof (cases "ty = Some ''list''")
        case False
        with run None no resolve_simple_value_absent [OF A] show ?thesis by simp
      next
        case True
        show ?thesis
        proof (cases lk)
          case n: None
          with run None no True show ?thesis by simp
        next
          case lks: (Some key_rule)
          show ?thesis
          proof (cases frm)
            case n: None
            with run None no True lks show ?thesis
              by (simp add: snd_bind split: sum.splits)
          next
            case frms: (Some source_name)
            have h: "r_coalesce ?rule = None" "r_type ?rule = Some ''list''"
              "r_link_key ?rule = Some key_rule" "r_from ?rule = Some source_name"
              using None True lks frms by simp_all
            note e = snd_build_field_list [OF h, of py_float cx key all_data]
            note a = snd_build_field_list [OF h, of py_float cx key aa]
            from run obtain k where k: "snd (get_value cx key_rule all_data False) = Inr k"
              unfolding e by (auto split: sum.splits)
            note k' = get_value_absent [OF A k]
            show ?thesis
            proof (cases so)
              case n: None
              with run k k' show ?thesis
                unfolding e a by (auto simp: absent_for_default [OF A] split: sum.splits)
            next
              case sos: (Some sub)
              have sub: "snd (build_node py_float x sub aa) = Inr y"
                if "snd (build_node py_float x sub all_data) = Inr y" for x y
                using "3.IH"(2) [OF None no True lks frms sos _ A] that
                by (simp add: build_node_def)
              from run k sos obtain entry linked_list items ys where
                  "val_get (data_get_default all_data source_name (VDict [])) k = Inr entry"
                  and "snd (linked_list_of fld entry) = Inr linked_list"
                  and "py_iter linked_list = Inr items"
                  and m: "snd (map_res (\<lambda>item. build_node py_float item sub all_data) items) = Inr ys"
                  and "v = VList ys"
                unfolding e by (auto split: sum.splits)
              moreover from m have "snd (map_res (\<lambda>item. build_node py_float item sub aa) items) = Inr ys"
                by (rule map_res_mono [rotated]) (rule sub)
              ultimately show ?thesis
                using k' sos unfolding a by (simp add: absent_for_default [OF A])
            qed
          qed
        qed
      qed
    qed
  qed
qed


lemma absent_for_upd: "absent_for name (ad(name := None)) (ad(name \<mapsto> VDict []))"
  by (simp add: absent_for_def)

lemma resolve_data_absent:
  assumes "absent_for name aa ae" and "snd (resolve_data pf spec ae items) = Inr outs"
  shows "snd (resolve_data pf spec aa items) = Inr outs"
proof (cases "sp_output_structure spec")
  case None
  with assms(2) show ?thesis by (simp add: resolve_data_def)
next
  case (Some st)
  have "snd (bind (root_context spec item) (\<lambda>context. build_node pf context st aa)) = Inr y"
    if "snd (bind (root_context spec item) (\<lambda>context. build_node pf context st ae)) = Inr y"
    for item y
    using that build_absent(1) [OF assms(1)]
    by (auto simp: snd_bind build_node_def split: sum.splits)
  from map_res_mono [of "\<lambda>item. bind (root_context spec item) (\<lambda>context. build_node pf context st ae)"
      "\<lambda>item. bind (root_context spec item) (\<lambda>context. build_node pf context st aa)", OF this]
    assms(2) Some
  show ?thesis by (simp add: resolve_data_def)
qed

section \<open>An absent table and an empty table\<close>

text \<open>
  Claim C6, as amended. Compare a table set in which a named table is present but empty
  with the same table set without that table. Whenever a value lookup (in particular
  a linked lookup), a condition check, the construction of a node (with its list
  rules, conditions and transforms) or a whole run returns a value against the table
  set with the empty table, it returns the same value against the table set without
  the table. The table that a list rule, a condition or a lookup transform reads is
  the same in both cases, and a transform gives the same result, diagnostics
  included. The converse does not hold.
\<close>

theorem absent_table_as_empty:
  "(snd (get_value ctx r (ad(name \<mapsto> VDict [])) silent) = Inr v \<longrightarrow>
      snd (get_value ctx r (ad(name := None)) silent) = Inr v) \<and>
   (snd (check_condition ctx c (ad(name \<mapsto> VDict []))) = Inr b \<longrightarrow>
      snd (check_condition ctx c (ad(name := None))) = Inr b) \<and>
   apply_transform pf v r (ad(name := None)) = apply_transform pf v r (ad(name \<mapsto> VDict [])) \<and>
   data_get_default (ad(name := None)) n (VDict []) =
     data_get_default (ad(name \<mapsto> VDict [])) n (VDict []) \<and>
   (snd (build_node pf ctx st (ad(name \<mapsto> VDict []))) = Inr res \<longrightarrow>
      snd (build_node pf ctx st (ad(name := None))) = Inr res) \<and>
   (snd (resolve_data pf spec (ad(name \<mapsto> VDict [])) items) = Inr outs \<longrightarrow>
      snd (resolve_data pf spec (ad(name := None)) items) = Inr outs)"
  using get_value_absent [OF absent_for_upd, of ctx r ad name silent v]
    check_condition_absent [OF absent_for_upd, of ctx c ad name b]
    apply_transform_absent [OF absent_for_upd, of pf v r ad name]
    absent_for_default [OF absent_for_upd, of ad name n]
    build_absent(1) [OF absent_for_upd, of pf ctx st ad name "[]" res]
    resolve_data_absent [OF absent_for_upd, of pf spec ad name items outs]
  unfolding build_node_def by blast

theorem absent_table_as_empty_witness:
  "snd (build_node (\<lambda>s. None) (VDict [(VStr ''zone'', VDict [(VStr ''zone_id'', VStr ''z1'')])])
          [(''spawners'', list_rule (direct_rule ''zone'' ''zone_id'') ''spawners'' None None),
           (''name'', linked_rule (direct_rule ''zone'' ''zone_id'') ''spawners'' (Some ''name''))]
          (Map.empty(''spawners'' \<mapsto> VDict []))) =
     Inr (VDict [(VStr ''spawners'', VList []), (VStr ''name'', VNone)]) \<and>
   snd (build_node (\<lambda>s. None) (VDict [(VStr ''zone'', VDict [(VStr ''zone_id'', VStr ''z1'')])])
          [(''spawners'', list_rule (direct_rule ''zone'' ''zone_id'') ''spawners'' None None),
           (''name'', linked_rule (direct_rule ''zone'' ''zone_id'') ''spawners'' (Some ''name''))]
          (Map.empty(''spawners'' := None))) =
     Inr (VDict [(VStr ''spawners'', VList []), (VStr ''name'', VNone)])"
proof -
  let ?ctx = "VDict [(VStr ''zone'', VDict [(VStr ''zone_id'', VStr ''z1'')])]"
  let ?st = "[(''spawners'', list_rule (direct_rule ''zone'' ''zone_id'') ''spawners'' None None),
           (''name'', linked_rule (direct_rule ''zone'' ''zone_id'') ''spawners'' (Some ''name''))]"
  have e: "snd (build_node (\<lambda>s. None) ?ctx ?st (Map.empty(''spawners'' \<mapsto> VDict []))) =
     Inr (VDict [(VStr ''spawners'', VList []), (VStr ''name'', VNone)])"
    by (simp add: build_node_def resolve_simple_value_def apply_transform_def linked_list_of_def
        data_get_def data_get_default_def rule_forms res_eval dict_eval)
  with absent_table_as_empty [where pf = "\<lambda>s. None" and ctx = ?ctx and st = ?st
      and ad = Map.empty and name = "''spawners''"
      and res = "VDict [(VStr ''spawners'', VList []), (VStr ''name'', VNone)]"]
  show ?thesis by blast
qed

text \<open>
  The claim as stated fails for a linked lookup whose link key resolves to a list:
  without the table the lookup returns \<^verbatim>\<open>None\<close> before it evaluates the link key, with
  the empty table it hashes the key and raises \<^verbatim>\<open>TypeError\<close>.
\<close>

theorem absent_table_differs_from_empty:
  "snd (get_value (VDict [(VStr ''zone'', VDict [(VStr ''tags'', VList [VStr ''z1''])])])
          (linked_rule (direct_rule ''zone'' ''tags'') ''spawners'' None)
          (Map.empty(''spawners'' := None)) False) = Inr VNone \<and>
   snd (get_value (VDict [(VStr ''zone'', VDict [(VStr ''tags'', VList [VStr ''z1''])])])
          (linked_rule (direct_rule ''zone'' ''tags'') ''spawners'' None)
          (Map.empty(''spawners'' \<mapsto> VDict [])) False) = Inl TypeError"
  by (simp add: data_get_def rule_forms res_eval dict_eval)

end
